theory Spec2Isabelle
  imports Main "HOL-Library.AList" "HOL-Library.Multiset"
begin

text \<open>
  A shallow embedding of the bus seat-map editor: the seat numbering and the rendering
  of the decks (BusLayout), the label and the click handler of a seat (\<open>Seat\<close>), the
  ledger handlers and auto-assign of the configurator (BusConfigurator), and the removal
  and the import of people (PeopleManager). Definitions come first, each translated
  from the function it is named after; the properties follow, one section per claim.
\<close>

section \<open>JavaScript values used by the components\<close>

text \<open>
  Seat ids and person ids are JavaScript strings. A string is truthy when it is not
  empty; an optional value (\<open>undefined\<close> is \<open>None\<close>) is truthy when it is present
  and truthy.
\<close>

type_synonym seat_id = string
type_synonym person_id = string

definition truthy :: "string \<Rightarrow> bool" where
  "truthy s = (s \<noteq> [])"

definition truthy_opt :: "string option \<Rightarrow> bool" where
  "truthy_opt v = (case v of None \<Rightarrow> False | Some s \<Rightarrow> truthy s)"

text \<open>\<open>String.fromCharCode(n)\<close> for the code units the layout uses (below 256).\<close>

definition fromCharCode :: "nat \<Rightarrow> char" where
  "fromCharCode n = char_of n"

text \<open>
  \<open>String(n)\<close> and the template literal \<open>${n}\<close> for a non-negative integer:
  its decimal digits.
\<close>

function String_num :: "nat \<Rightarrow> string" where
  "String_num n = (if n < 10 then [fromCharCode (48 + n)]
                   else String_num (n div 10) @ [fromCharCode (48 + n mod 10)])"
  by pat_completeness auto
termination
  by (relation "measure id") auto

declare String_num.simps [simp del]

text \<open>
  A JavaScript \<open>Map\<close> keeps its entries in insertion order: \<open>set\<close> on a present
  key replaces the value in place, on a new key appends the entry; \<open>delete\<close> removes
  the entry. It is modelled as an association list whose keys are distinct.
\<close>

type_synonym ('k, 'v) js_map = "('k \<times> 'v) list"

definition Map_get :: "('k, 'v) js_map \<Rightarrow> 'k \<Rightarrow> 'v option" where
  "Map_get m k = map_of m k"

definition Map_has :: "('k, 'v) js_map \<Rightarrow> 'k \<Rightarrow> bool" where
  "Map_has m k = (map_of m k \<noteq> None)"

definition Map_set :: "'k \<Rightarrow> 'v \<Rightarrow> ('k, 'v) js_map \<Rightarrow> ('k, 'v) js_map" where
  "Map_set k v m = AList.update k v m"

definition Map_delete :: "'k \<Rightarrow> ('k, 'v) js_map \<Rightarrow> ('k, 'v) js_map" where
  "Map_delete k m = AList.delete k m"

definition Map_values :: "('k, 'v) js_map \<Rightarrow> 'v list" where
  "Map_values m = map snd m"

section \<open>Configuration state\<close>

text \<open>
  \<open>Person\<close> (PeopleManager) and \<open>BusConfig\<close> (BusConfigurator). The record has
  every field the components under verification read: BusLayout also reads
  \<open>driverSeats\<close> and the optional \<open>entranceRows\<close>, \<open>tableRows\<close> and
  \<open>upperDeckEntranceRows\<close> (\<open>None\<close> is \<open>undefined\<close>). The fields \<open>id\<close> and
  \<open>notes\<close> of a person are called \<open>pid\<close> and \<open>pnotes\<close> here.
\<close>

record Person =
  pid :: person_id
  name :: string
  birthDate :: "string option"
  pnotes :: "string option"

record BusConfig =
  busName :: string
  licensePlates :: string
  mainDeckRows :: nat
  upperDeckRows :: nat
  hasUpperDeck :: bool
  lastRowSeats :: nat
  tourGuideSeats :: "seat_id list"
  driverSeats :: "seat_id list"
  entranceRows :: "nat list option"
  tableRows :: "nat list option"
  upperDeckEntranceRows :: "nat list option"
  emptySpaces :: "seat_id set"
  seatNumbers :: "(seat_id, string) js_map"
  people :: "Person list"
  seatAssignments :: "(seat_id, person_id) js_map"

text \<open>\<open>rows?.includes(row)\<close>: \<open>undefined\<close> (falsy) when the array is absent.\<close>

definition opt_includes :: "nat list option \<Rightarrow> nat \<Rightarrow> bool" where
  "opt_includes rows row = (case rows of None \<Rightarrow> False | Some rs \<Rightarrow> row \<in> set rs)"

section \<open>Seat numbering (BusLayout, \<open>seatNumberMap\<close>)\<close>

text \<open>The loop state is the running counter and the map built so far.\<close>

type_synonym numbering = "nat \<times> (seat_id, string) js_map"

text \<open>
  The tail of both inner loop bodies:
  \<open>if (!config.emptySpaces.has(sid)) { counter += 1; map.set(sid, String(counter)); }\<close>
\<close>

definition number_seat :: "BusConfig \<Rightarrow> seat_id \<Rightarrow> numbering \<Rightarrow> numbering" where
  "number_seat config sid st =
     (case st of (counter, m) \<Rightarrow>
        if sid \<notin> emptySpaces config
        then (counter + 1, Map_set sid (String_num (counter + 1)) m)
        else (counter, m))"

definition main_sid :: "nat \<Rightarrow> nat \<Rightarrow> seat_id" where
  "main_sid row seatIndex = String_num row @ [fromCharCode (65 + seatIndex)]"

definition upper_sid :: "nat \<Rightarrow> nat \<Rightarrow> seat_id" where
  "upper_sid row seatIndex = ''U'' @ String_num row @ [fromCharCode (65 + seatIndex)]"

definition seatsInRow :: "BusConfig \<Rightarrow> nat \<Rightarrow> nat" where
  "seatsInRow config row = (if row = mainDeckRows config then lastRowSeats config else 4)"

text \<open>Body of the inner loop of the main deck, for one \<open>seatIndex\<close>.\<close>

definition main_seat_step :: "BusConfig \<Rightarrow> nat \<Rightarrow> nat \<Rightarrow> numbering \<Rightarrow> numbering" where
  "main_seat_step config row seatIndex st =
     (let seatLetter = fromCharCode (65 + seatIndex);
          sid = String_num row @ [seatLetter]
      in if opt_includes (entranceRows config) row
            \<and> (seatLetter = CHR ''C'' \<or> seatLetter = CHR ''D'')
         then st
         else number_seat config sid st)"

text \<open>Body of the outer loop of the main deck, for one \<open>row\<close>: a table row is skipped.\<close>

definition main_row_step :: "BusConfig \<Rightarrow> nat \<Rightarrow> numbering \<Rightarrow> numbering" where
  "main_row_step config row st =
     (if opt_includes (tableRows config) row then st
      else fold (main_seat_step config row) [0..<seatsInRow config row] st)"

definition upper_seat_step :: "BusConfig \<Rightarrow> nat \<Rightarrow> nat \<Rightarrow> numbering \<Rightarrow> numbering" where
  "upper_seat_step config row seatIndex st =
     (let seatLetter = fromCharCode (65 + seatIndex);
          sid = ''U'' @ String_num row @ [seatLetter]
      in if opt_includes (upperDeckEntranceRows config) row
            \<and> (seatLetter = CHR ''C'' \<or> seatLetter = CHR ''D'')
         then st
         else number_seat config sid st)"

definition upper_row_step :: "BusConfig \<Rightarrow> nat \<Rightarrow> numbering \<Rightarrow> numbering" where
  "upper_row_step config row st = fold (upper_seat_step config row) [0..<4] st"

text \<open>
  The whole computation: the counter starts at 0, the main deck rows
  \<open>1 .. mainDeckRows\<close> come first, the upper deck rows \<open>1 .. upperDeckRows\<close> continue
  with the same counter when \<open>hasUpperDeck\<close> is set.
\<close>

definition seatNumbering :: "BusConfig \<Rightarrow> numbering" where
  "seatNumbering config =
     (let st = fold (main_row_step config) [1..<Suc (mainDeckRows config)] (0, [])
      in if hasUpperDeck config
         then fold (upper_row_step config) [1..<Suc (upperDeckRows config)] st
         else st)"

definition seatNumberMap :: "BusConfig \<Rightarrow> (seat_id, string) js_map" where
  "seatNumberMap config = snd (seatNumbering config)"

text \<open>
  The same numbering, worded as the specification does: the seat slots of the geometry
  in one sequence (main deck rows ascending, then the upper deck when present), and one
  pass over that sequence with a single counter.
\<close>

definition main_row_seats :: "BusConfig \<Rightarrow> nat \<Rightarrow> seat_id list" where
  "main_row_seats config row =
     (if opt_includes (tableRows config) row then []
      else map (main_sid row)
             (filter (\<lambda>i. \<not> (opt_includes (entranceRows config) row \<and> (i = 2 \<or> i = 3)))
                [0..<seatsInRow config row]))"

definition upper_row_seats :: "BusConfig \<Rightarrow> nat \<Rightarrow> seat_id list" where
  "upper_row_seats config row =
     map (upper_sid row)
       (filter (\<lambda>i. \<not> (opt_includes (upperDeckEntranceRows config) row \<and> (i = 2 \<or> i = 3)))
          [0..<4])"

definition seat_slots :: "BusConfig \<Rightarrow> seat_id list" where
  "seat_slots config =
     concat (map (main_row_seats config) [1..<Suc (mainDeckRows config)])
     @ (if hasUpperDeck config
        then concat (map (upper_row_seats config) [1..<Suc (upperDeckRows config)])
        else [])"

fun number_slots :: "seat_id set \<Rightarrow> seat_id list \<Rightarrow> numbering \<Rightarrow> numbering" where
  "number_slots E [] st = st"
| "number_slots E (s # ss) (counter, m) =
     (if s \<in> E then number_slots E ss (counter, m)
      else number_slots E ss (counter + 1, Map_set s (String_num (counter + 1)) m))"

text \<open>
  The seats of an entrance row of the main deck: A and B, and E when the row is five
  seats wide.
\<close>

definition entrance_main_seats :: "BusConfig \<Rightarrow> nat \<Rightarrow> seat_id list" where
  "entrance_main_seats config row =
     main_sid row 0 # main_sid row 1 # (if seatsInRow config row = 5 then [main_sid row 4] else [])"

text \<open>
  The entrance rule of the other variant of the component (src/unnamed/part_001):
  the counter is advanced by two before the row, and the letters B and C are skipped.
  There are no table rows and no upper-deck entrance rows in that variant.
\<close>

definition main_seat_step_v1 :: "BusConfig \<Rightarrow> nat \<Rightarrow> nat \<Rightarrow> numbering \<Rightarrow> numbering" where
  "main_seat_step_v1 config row seatIndex st =
     (let seatLetter = fromCharCode (65 + seatIndex);
          sid = String_num row @ [seatLetter]
      in if opt_includes (entranceRows config) row
            \<and> (seatLetter = CHR ''B'' \<or> seatLetter = CHR ''C'')
         then st
         else number_seat config sid st)"

definition main_row_step_v1 :: "BusConfig \<Rightarrow> nat \<Rightarrow> numbering \<Rightarrow> numbering" where
  "main_row_step_v1 config row st =
     fold (main_seat_step_v1 config row) [0..<seatsInRow config row]
       (if opt_includes (entranceRows config) row then (fst st + 2, snd st) else st)"

definition upper_row_step_v1 :: "BusConfig \<Rightarrow> nat \<Rightarrow> numbering \<Rightarrow> numbering" where
  "upper_row_step_v1 config row st =
     fold (\<lambda>seatIndex. number_seat config (''U'' @ String_num row @ [fromCharCode (65 + seatIndex)]))
       [0..<4] st"

definition seatNumberMap_v1 :: "BusConfig \<Rightarrow> (seat_id, string) js_map" where
  "seatNumberMap_v1 config =
     (let st = fold (main_row_step_v1 config) [1..<Suc (mainDeckRows config)] (0, [])
      in snd (if hasUpperDeck config
              then fold (upper_row_step_v1 config) [1..<Suc (upperDeckRows config)] st
              else st))"

section \<open>Rendering of the decks (BusLayout, \<open>renderMainDeck\<close>, \<open>renderUpperDeck\<close>)\<close>

text \<open>
  What a row renders at each position: a \<open>Seat\<close> component with its seat id and the
  label it is given, the entrance block, a table placeholder, or nothing (\<open>null\<close>).
\<close>

datatype cell = SeatCell seat_id string | EntranceCell | TableCell | NoCell

text \<open>\<open>seatNumberMap.get(seatId) ?? ""\<close>\<close>

definition seatNumber_of :: "BusConfig \<Rightarrow> seat_id \<Rightarrow> string" where
  "seatNumber_of config seatId =
     (case Map_get (seatNumberMap config) seatId of Some n \<Rightarrow> n | None \<Rightarrow> [])"

definition render_main_cell :: "BusConfig \<Rightarrow> nat \<Rightarrow> nat \<Rightarrow> cell" where
  "render_main_cell config row seatIndex =
     (let seatLetter = fromCharCode (65 + seatIndex);
          seatId = String_num row @ [seatLetter];
          seatNumber = seatNumber_of config seatId
      in if opt_includes (entranceRows config) row \<and> seatIndex = 2 then EntranceCell
         else if opt_includes (entranceRows config) row \<and> seatIndex = 3 then NoCell
         else SeatCell seatId seatNumber)"

definition renderMainRow :: "BusConfig \<Rightarrow> nat \<Rightarrow> cell list" where
  "renderMainRow config row =
     (if opt_includes (tableRows config) row then [TableCell, TableCell]
      else map (render_main_cell config row) [0..<seatsInRow config row])"

definition renderMainDeck :: "BusConfig \<Rightarrow> cell list list" where
  "renderMainDeck config = map (renderMainRow config) [1..<Suc (mainDeckRows config)]"

definition render_upper_cell :: "BusConfig \<Rightarrow> nat \<Rightarrow> nat \<Rightarrow> cell" where
  "render_upper_cell config row seatIndex =
     (let seatLetter = fromCharCode (65 + seatIndex);
          seatId = ''U'' @ String_num row @ [seatLetter];
          seatNumber = seatNumber_of config seatId
      in if opt_includes (upperDeckEntranceRows config) row \<and> seatIndex = 2 then EntranceCell
         else if opt_includes (upperDeckEntranceRows config) row \<and> seatIndex = 3 then NoCell
         else SeatCell seatId seatNumber)"

definition renderUpperRow :: "BusConfig \<Rightarrow> nat \<Rightarrow> cell list" where
  "renderUpperRow config row = map (render_upper_cell config row) [0..<4]"

definition renderUpperDeck :: "BusConfig \<Rightarrow> cell list list" where
  "renderUpperDeck config =
     (if \<not> hasUpperDeck config then []
      else map (renderUpperRow config) [1..<Suc (upperDeckRows config)])"

text \<open>The seat ids a list of cells gives a \<open>Seat\<close> component to, in order.\<close>

fun cell_seats :: "cell list \<Rightarrow> seat_id list" where
  "cell_seats [] = []"
| "cell_seats (SeatCell sid label # cs) = sid # cell_seats cs"
| "cell_seats (c # cs) = cell_seats cs"

definition rendered_seats :: "BusConfig \<Rightarrow> seat_id list" where
  "rendered_seats config =
     concat (map cell_seats (renderMainDeck config))
     @ concat (map cell_seats (renderUpperDeck config))"

section \<open>The \<open>Seat\<close> component (BusLayout)\<close>

text \<open>\<open>isNumeric = (val) => !!val && /^\d+$/.test(val)\<close>\<close>

definition isDigit :: "char \<Rightarrow> bool" where
  "isDigit c = (48 \<le> (of_char c :: nat) \<and> (of_char c :: nat) \<le> 57)"

definition isNumeric :: "string option \<Rightarrow> bool" where
  "isNumeric val = (case val of None \<Rightarrow> False | Some s \<Rightarrow> truthy s \<and> list_all isDigit s)"

text \<open>
  \<open>displayResolved = isNumeric(customNumber) ? customNumber! : displayLabel\<close>, with
  \<open>customNumber = config.seatNumbers.get(seatId)\<close>.
\<close>

definition displayResolved :: "BusConfig \<Rightarrow> seat_id \<Rightarrow> string \<Rightarrow> string" where
  "displayResolved config seatId displayLabel =
     (let customNumber = Map_get (seatNumbers config) seatId
      in if isNumeric customNumber
         then (case customNumber of Some v \<Rightarrow> v | None \<Rightarrow> displayLabel)
         else displayLabel)"

text \<open>The label of a seat as the deck renders it: \<open>displayLabel\<close> is the computed number.\<close>

definition seat_label :: "BusConfig \<Rightarrow> seat_id \<Rightarrow> string" where
  "seat_label config seatId = displayResolved config seatId (seatNumber_of config seatId)"

text \<open>
  \<open>assignedPerson = assignedPersonId ? config.people.find(p => p.id === assignedPersonId) : null\<close>
\<close>

definition assignedPerson :: "BusConfig \<Rightarrow> seat_id \<Rightarrow> Person option" where
  "assignedPerson config seatId =
     (case Map_get (seatAssignments config) seatId of
        None \<Rightarrow> None
      | Some assignedPersonId \<Rightarrow>
          if truthy assignedPersonId
          then find (\<lambda>p. pid p = assignedPersonId) (people config)
          else None)"

section \<open>The configurator (BusConfigurator)\<close>

text \<open>The state the component starts with; BusLayout also needs \<open>driverSeats\<close>.\<close>

definition initialConfig :: BusConfig where
  "initialConfig =
     \<lparr> busName = [], licensePlates = [], mainDeckRows = 12, upperDeckRows = 3,
       hasUpperDeck = False, lastRowSeats = 5, tourGuideSeats = [], driverSeats = [],
       entranceRows = None, tableRows = None, upperDeckEntranceRows = None,
       emptySpaces = {}, seatNumbers = [], people = [], seatAssignments = [] \<rparr>"

definition toggleEmptySpace :: "seat_id \<Rightarrow> BusConfig \<Rightarrow> BusConfig" where
  "toggleEmptySpace seatId config =
     config\<lparr>emptySpaces :=
        (if seatId \<in> emptySpaces config then emptySpaces config - {seatId}
         else insert seatId (emptySpaces config))\<rparr>"

text \<open>
  \<open>handleClick\<close> of \<open>Seat\<close> for a plain click (no modifier key, no drag in progress):
  \<open>if (assignedPerson) return; ... onToggleEmptySpace(seatId)\<close>.
\<close>

definition Seat_handleClick :: "seat_id \<Rightarrow> BusConfig \<Rightarrow> BusConfig" where
  "Seat_handleClick seatId config =
     (if assignedPerson config seatId \<noteq> None then config
      else toggleEmptySpace seatId config)"

definition available_seat :: "BusConfig \<Rightarrow> seat_id \<Rightarrow> bool" where
  "available_seat config seatId =
     (seatId \<notin> emptySpaces config \<and> seatId \<notin> set (tourGuideSeats config))"

definition getAvailableSeats :: "BusConfig \<Rightarrow> seat_id list" where
  "getAvailableSeats config =
     concat (map (\<lambda>row. filter (available_seat config)
                          (map (\<lambda>seatIndex. String_num row @ [fromCharCode (65 + seatIndex)])
                             [0..<seatsInRow config row]))
               [1..<Suc (mainDeckRows config)])
     @ (if hasUpperDeck config
        then concat (map (\<lambda>row. filter (available_seat config)
                          (map (\<lambda>seatIndex. ''U'' @ String_num row @ [fromCharCode (65 + seatIndex)])
                             [0..<4]))
               [1..<Suc (upperDeckRows config)])
        else [])"

text \<open>
  \<open>Array.prototype.sort(compare)\<close>. The language fixes the result only for a
  comparator that is a consistent ordering (then the sort is stable); the comparator
  of this program is not one, so the model follows the algorithm of the V8 engine
  for an array of fewer than 64 elements, which is a single run of its TimSort:
  \<open>CountAndMakeRun\<close> takes the longest prefix that is ascending
  (\<open>compare(current, previous) >= 0\<close> all along) or strictly descending
  (\<open>compare(current, previous) < 0\<close> all along) and reverses a descending one;
  \<open>BinaryInsertionSort\<close> then inserts each remaining element \<open>pivot\<close> at the
  position a binary search finds in the sorted part (\<open>right = mid\<close> when
  \<open>compare(pivot, workArray[mid]) < 0\<close>, \<open>left = mid + 1\<close> otherwise). A longer array
  is sorted by the engine in several such runs that are merged; its result is a
  permutation of the array as well, and the stable sort whenever the comparator is a
  consistent ordering of the elements.
\<close>

function bsearch :: "('a \<Rightarrow> 'a \<Rightarrow> int) \<Rightarrow> 'a \<Rightarrow> 'a list \<Rightarrow> nat \<Rightarrow> nat \<Rightarrow> nat" where
  "bsearch compare pivot xs left right =
     (if left < right
      then (let mid = left + (right - left) div 2
            in if compare pivot (xs ! mid) < 0
               then bsearch compare pivot xs left mid
               else bsearch compare pivot xs (mid + 1) right)
      else left)"
  by pat_completeness auto
termination
  by (relation "measure (\<lambda>(compare, pivot, xs, left, right). right - left)") auto

declare bsearch.simps [simp del]

definition binary_insert :: "('a \<Rightarrow> 'a \<Rightarrow> int) \<Rightarrow> 'a \<Rightarrow> 'a list \<Rightarrow> 'a list" where
  "binary_insert compare pivot xs =
     (let left = bsearch compare pivot xs 0 (length xs)
      in take left xs @ [pivot] @ drop left xs)"

fun run_more :: "('a \<Rightarrow> 'a \<Rightarrow> int) \<Rightarrow> bool \<Rightarrow> 'a \<Rightarrow> 'a list \<Rightarrow> nat" where
  "run_more compare isDescending previous [] = 0"
| "run_more compare isDescending previous (current # rest) =
     (if (if isDescending then compare current previous \<ge> 0 else compare current previous < 0)
      then 0
      else Suc (run_more compare isDescending current rest))"

definition Array_sort :: "('a \<Rightarrow> 'a \<Rightarrow> int) \<Rightarrow> 'a list \<Rightarrow> 'a list" where
  "Array_sort compare xs =
     (case xs of
        [] \<Rightarrow> []
      | [x] \<Rightarrow> [x]
      | x # y # rest \<Rightarrow>
          (let isDescending = compare y x < 0;
               runLength = 2 + run_more compare isDescending y rest;
               run = take runLength xs
           in fold (binary_insert compare) (drop runLength xs)
                (if isDescending then rev run else run)))"

text \<open>
  The comparator of \<open>autoAssignPeople\<close>, of the import and of \<open>sortPeopleByBirth\<close>:
  \<open>if (!a.birthDate || !b.birthDate) return 0;
    return new Date(a.birthDate).getTime() - new Date(b.birthDate).getTime();\<close>
  The parameter \<open>getTime\<close> stands for \<open>new Date(s).getTime()\<close>; \<open>None\<close> is \<open>NaN\<close>
  (an invalid date), and a \<open>NaN\<close> result of the comparator counts as 0 in the sort.
\<close>

definition birth_compare :: "(string \<Rightarrow> int option) \<Rightarrow> Person \<Rightarrow> Person \<Rightarrow> int" where
  "birth_compare getTime a b =
     (case (birthDate a, birthDate b) of
        (Some da, Some db) \<Rightarrow>
          if truthy da \<and> truthy db
          then (case (getTime da, getTime db) of
                  (Some ta, Some tb) \<Rightarrow> ta - tb
                | _ \<Rightarrow> 0)
          else 0
      | _ \<Rightarrow> 0)"

definition autoAssignPeople :: "(string \<Rightarrow> int option) \<Rightarrow> BusConfig \<Rightarrow> BusConfig" where
  "autoAssignPeople getTime config =
     (let availableSeats = getAvailableSeats config;
          newAssignments = seatAssignments config;
          freeSeats = filter (\<lambda>seat. \<not> Map_has newAssignments seat) availableSeats;
          assignedIds = set (Map_values newAssignments);
          unassignedPeople = filter (\<lambda>p. pid p \<notin> assignedIds) (people config);
          sortedPeople = Array_sort (birth_compare getTime) unassignedPeople;
          assignCount = min (length sortedPeople) (length freeSeats)
      in config\<lparr>seatAssignments :=
           fold (\<lambda>i. Map_set (freeSeats ! i) (pid (sortedPeople ! i))) [0..<assignCount]
             newAssignments\<rparr>)"

definition handleUnassignToPeople :: "person_id \<Rightarrow> seat_id \<Rightarrow> BusConfig \<Rightarrow> BusConfig" where
  "handleUnassignToPeople personId seatId config =
     config\<lparr>seatAssignments := Map_delete seatId (seatAssignments config)\<rparr>"

text \<open>
  The two branches that \<open>handleDragEnd\<close> and \<open>onSeatAssignment\<close> both contain, on the
  copy \<open>newAssignments\<close> of the ledger. Seat to seat:
  \<open>targetOccupant = get(target); set(target, personId); delete(from);
    if (targetOccupant && targetOccupant !== personId) set(from, targetOccupant)\<close>.
  From the people list: every entry of the person is deleted, then the target is set.
\<close>

definition seat_to_seat ::
  "person_id \<Rightarrow> seat_id \<Rightarrow> seat_id \<Rightarrow> (seat_id, person_id) js_map \<Rightarrow> (seat_id, person_id) js_map" where
  "seat_to_seat personId fromSeatId targetSeatId newAssignments =
     (let targetOccupant = Map_get newAssignments targetSeatId;
          m1 = Map_set targetSeatId personId newAssignments;
          m2 = Map_delete fromSeatId m1
      in if truthy_opt targetOccupant \<and> targetOccupant \<noteq> Some personId
         then (case targetOccupant of Some q \<Rightarrow> Map_set fromSeatId q m2 | None \<Rightarrow> m2)
         else m2)"

definition from_people_list ::
  "person_id \<Rightarrow> seat_id \<Rightarrow> (seat_id, person_id) js_map \<Rightarrow> (seat_id, person_id) js_map" where
  "from_people_list personId targetSeatId newAssignments =
     Map_set targetSeatId personId (filter (\<lambda>(s, p). p \<noteq> personId) newAssignments)"

text \<open>
  The drag-end event as the handler reads it: \<open>over\<close> is \<open>String(over.id)\<close> (\<open>None\<close>
  when there is no drop target), \<open>active_data\<close> is \<open>active.data.current\<close>, whose
  field \<open>type\<close> is called \<open>dtype\<close> here.
\<close>

record DragData =
  dtype :: string
  personId :: person_id
  fromSeatId :: "seat_id option"

record DragEndEvent =
  over :: "string option"
  active_data :: "DragData option"

definition handleDragEnd :: "DragEndEvent \<Rightarrow> BusConfig \<Rightarrow> BusConfig" where
  "handleDragEnd event config =
     (case over event of
        None \<Rightarrow> config
      | Some overId \<Rightarrow>
          (case active_data event of
             None \<Rightarrow> config
           | Some d \<Rightarrow>
               if dtype d \<noteq> ''person'' then config
               else if overId = ''people-drop'' then
                 (case fromSeatId d of
                    Some f \<Rightarrow> if truthy f then handleUnassignToPeople (personId d) f config
                              else config
                  | None \<Rightarrow> config)
               else if overId \<in> emptySpaces config \<or> overId \<in> set (tourGuideSeats config)
               then config
               else config\<lparr>seatAssignments :=
                      (case fromSeatId d of
                         Some f \<Rightarrow>
                           if truthy f
                           then seat_to_seat (personId d) f overId (seatAssignments config)
                           else from_people_list (personId d) overId (seatAssignments config)
                       | None \<Rightarrow> from_people_list (personId d) overId (seatAssignments config))\<rparr>))"

text \<open>The callback \<open>onSeatAssignment(seatId, personId, fromSeatId)\<close> given to BusLayout.\<close>

definition onSeatAssignment ::
  "seat_id \<Rightarrow> person_id option \<Rightarrow> seat_id option \<Rightarrow> BusConfig \<Rightarrow> BusConfig" where
  "onSeatAssignment seatId pId fromSeat config =
     config\<lparr>seatAssignments :=
       (case pId of
          None \<Rightarrow> Map_delete seatId (seatAssignments config)
        | Some p \<Rightarrow>
            if truthy p then
              (case fromSeat of
                 Some f \<Rightarrow>
                   if truthy f then seat_to_seat p f seatId (seatAssignments config)
                   else from_people_list p seatId (seatAssignments config)
               | None \<Rightarrow> from_people_list p seatId (seatAssignments config))
            else Map_delete seatId (seatAssignments config))\<rparr>"

text \<open>The drag data the two draggables register (\<open>Seat\<close> and \<open>DraggablePerson\<close>).\<close>

definition drag_from_list :: "person_id \<Rightarrow> string \<Rightarrow> DragEndEvent" where
  "drag_from_list p target =
     \<lparr>over = Some target,
      active_data = Some \<lparr>dtype = ''person'', personId = p, fromSeatId = None\<rparr>\<rparr>"

definition drag_from_seat :: "person_id \<Rightarrow> seat_id \<Rightarrow> string \<Rightarrow> DragEndEvent" where
  "drag_from_seat p fromSeat target =
     \<lparr>over = Some target,
      active_data = Some \<lparr>dtype = ''person'', personId = p, fromSeatId = Some fromSeat\<rparr>\<rparr>"

section \<open>Ledger operations in sequence\<close>

text \<open>
  The uniqueness invariant of the ledger: no person id is the value of two entries.
\<close>

definition unique_people :: "(seat_id, person_id) js_map \<Rightarrow> bool" where
  "unique_people m = distinct (map snd m)"

datatype ledger_call =
    DragEnd DragEndEvent
  | SeatAssignment seat_id "person_id option" "seat_id option"
  | UnassignToPeople person_id seat_id

fun apply_call :: "ledger_call \<Rightarrow> BusConfig \<Rightarrow> BusConfig" where
  "apply_call (DragEnd event) config = handleDragEnd event config"
| "apply_call (SeatAssignment seatId pId fromSeat) config = onSeatAssignment seatId pId fromSeat config"
| "apply_call (UnassignToPeople p seatId) config = handleUnassignToPeople p seatId config"

definition run_calls :: "ledger_call list \<Rightarrow> BusConfig \<Rightarrow> BusConfig" where
  "run_calls calls config = fold apply_call calls config"

text \<open>
  A seat-to-seat call names its source seat and the person dragged. The \<open>Seat\<close>
  component registers the person it shows on that seat, so the person named is the
  one the ledger records there; \<open>call_ok\<close> says so for one call, \<open>calls_ok\<close> for a
  sequence, each call against the state it is applied to.
\<close>

definition source_holds :: "BusConfig \<Rightarrow> person_id \<Rightarrow> seat_id option \<Rightarrow> bool" where
  "source_holds config p fromSeat =
     (case fromSeat of
        None \<Rightarrow> True
      | Some f \<Rightarrow> if truthy f then Map_get (seatAssignments config) f = Some p else True)"

fun call_ok :: "BusConfig \<Rightarrow> ledger_call \<Rightarrow> bool" where
  "call_ok config (DragEnd event) =
     (case active_data event of
        None \<Rightarrow> True
      | Some d \<Rightarrow> source_holds config (personId d) (fromSeatId d))"
| "call_ok config (SeatAssignment seatId pId fromSeat) =
     (case pId of None \<Rightarrow> True | Some p \<Rightarrow> source_holds config p fromSeat)"
| "call_ok config (UnassignToPeople p seatId) = True"

fun calls_ok :: "BusConfig \<Rightarrow> ledger_call list \<Rightarrow> bool" where
  "calls_ok config [] = True"
| "calls_ok config (c # cs) = (call_ok config c \<and> calls_ok (apply_call c config) cs)"

text \<open>
  The representation invariant of a \<open>Map\<close> (its keys are distinct), the uniqueness
  invariant read through \<open>get\<close>, and both together for the ledger of a configuration.
\<close>

definition keys_ok :: "('k, 'v) js_map \<Rightarrow> bool" where
  "keys_ok m = distinct (map fst m)"

definition one_seat_each :: "(seat_id, person_id) js_map \<Rightarrow> bool" where
  "one_seat_each m =
     (\<forall>s1 s2 p. Map_get m s1 = Some p \<and> Map_get m s2 = Some p \<longrightarrow> s1 = s2)"

definition ledger_ok :: "BusConfig \<Rightarrow> bool" where
  "ledger_ok config = (keys_ok (seatAssignments config) \<and> one_seat_each (seatAssignments config))"

text \<open>
  \<open>lastRowSeats\<close> has the type \<open>4 | 5\<close> in the component; the record field is a
  number, and \<open>last_row_ok\<close> states the type's restriction.
\<close>

definition last_row_ok :: "BusConfig \<Rightarrow> bool" where
  "last_row_ok config = (lastRowSeats config = 4 \<or> lastRowSeats config = 5)"

section \<open>The people panel (PeopleManager)\<close>

text \<open>
  \<open>removePerson\<close> gives \<open>people.filter(p => p.id !== id)\<close> to \<open>onPeopleChange\<close>, which
  the configurator wires to \<open>setConfig(prev => ({ ...prev, people }))\<close>: the ledger is
  not touched.
\<close>

definition removePerson :: "person_id \<Rightarrow> BusConfig \<Rightarrow> BusConfig" where
  "removePerson i config = config\<lparr>people := filter (\<lambda>p. pid p \<noteq> i) (people config)\<rparr>"

text \<open>
  The rows PapaParse delivers with \<open>header: true\<close>: objects from header text to cell
  text. \<open>field row h\<close> is \<open>row[h]\<close>, \<open>None\<close> when the column is absent. \<open>js_or\<close> is
  \<open>||\<close> on such values.
\<close>

type_synonym csv_row = "(string \<times> string) list"

definition field :: "csv_row \<Rightarrow> string \<Rightarrow> string option" where
  "field row h = map_of row h"

definition js_or :: "string option \<Rightarrow> string option \<Rightarrow> string option" where
  "js_or a b = (if truthy_opt a then a else b)"

definition rawName_of :: "csv_row \<Rightarrow> string option" where
  "rawName_of row =
     js_or (js_or (js_or (js_or (field row ''name'') (field row ''Name''))
                         (field row ''Name and Lastname''))
                  (field row ''Full Name''))
           (field row ''Full name'')"

definition rawBirth_of :: "csv_row \<Rightarrow> string option" where
  "rawBirth_of row =
     js_or (js_or (js_or (js_or (js_or (field row ''birth'') (field row ''Birth''))
                                (field row ''Date of Birth''))
                         (field row ''DOB''))
                  (field row ''Birthdate''))
           (field row ''Birth Date'')"

text \<open>
  \<open>String.prototype.trim\<close> removes the white space and line terminators of the
  language from both ends. \<open>js_white_space\<close> is that set, by code unit: tab, line
  feed, vertical tab, form feed, carriage return, space, no-break space (160), and
  beyond the range of one byte the Ogham space mark, the spaces 8192 to 8202, the line
  and paragraph separators, the narrow no-break space, the medium mathematical space,
  the ideographic space and the byte order mark. The characters of a \<open>string\<close> here
  are the code units below 256.
\<close>

definition js_white_space :: "int \<Rightarrow> bool" where
  "js_white_space n =
     (n \<in> {9, 10, 11, 12, 13, 32, 160, 5760, 8232, 8233, 8239, 8287, 12288, 65279}
      \<or> (8192 \<le> n \<and> n \<le> 8202))"

definition isSpace :: "char \<Rightarrow> bool" where
  "isSpace c = js_white_space (of_char c)"

definition trim :: "string \<Rightarrow> string" where
  "trim s = rev (dropWhile isSpace (rev (dropWhile isSpace s)))"

text \<open>
  The body of \<open>results.data.forEach\<close> for the row with index \<open>i\<close>. The id
  \<open>Date.now().toString() + Math.random()\<close> is not a function of the row; \<open>newId i\<close>
  stands for the id drawn for row \<open>i\<close>.
\<close>

definition import_row :: "(nat \<Rightarrow> string) \<Rightarrow> nat \<times> csv_row \<Rightarrow> Person list \<Rightarrow> Person list" where
  "import_row newId ir importedPeople =
     (case ir of (i, row) \<Rightarrow>
        (case rawName_of row of
           None \<Rightarrow> importedPeople
         | Some rawName \<Rightarrow>
             if truthy rawName \<and> truthy (trim rawName)
             then importedPeople @
                    [\<lparr> pid = newId i, name = trim rawName,
                       birthDate = (case rawBirth_of row of
                                      None \<Rightarrow> None
                                    | Some rawBirth \<Rightarrow>
                                        if truthy rawBirth then Some (trim rawBirth) else None),
                       pnotes = None \<rparr>]
             else importedPeople))"

definition import_rows :: "(nat \<Rightarrow> string) \<Rightarrow> csv_row list \<Rightarrow> Person list" where
  "import_rows newId rows = fold (import_row newId) (enumerate 0 rows) []"

text \<open>
  The \<open>complete\<close> callback of \<open>handleFileUpload\<close>: the imported people are sorted by
  birth date and \<open>[...people, ...importedPeople]\<close> is given to \<open>onPeopleChange\<close>;
  \<open>current\<close> is the prop \<open>people\<close>.
\<close>

definition handleFileUpload_complete ::
  "(string \<Rightarrow> int option) \<Rightarrow> (nat \<Rightarrow> string) \<Rightarrow> csv_row list \<Rightarrow> Person list \<Rightarrow> Person list" where
  "handleFileUpload_complete getTime newId rows current =
     current @ Array_sort (birth_compare getTime) (import_rows newId rows)"

text \<open>
  The import rule in the words of the specification: a record resolves its name
  through the header aliases, in their order, to the first cell that is not empty; the
  name is usable when it is not empty after trimming. \<open>person_of\<close> is the person such
  a record yields.
\<close>

definition name_aliases :: "string list" where
  "name_aliases = [''name'', ''Name'', ''Name and Lastname'', ''Full Name'', ''Full name'']"

definition resolved_name :: "csv_row \<Rightarrow> string option" where
  "resolved_name row = find truthy (List.map_filter (field row) name_aliases)"

definition usable_name :: "csv_row \<Rightarrow> bool" where
  "usable_name row = (case resolved_name row of None \<Rightarrow> False | Some v \<Rightarrow> trim v \<noteq> [])"

definition person_of :: "(nat \<Rightarrow> string) \<Rightarrow> nat \<times> csv_row \<Rightarrow> Person" where
  "person_of newId ir =
     (case ir of (i, row) \<Rightarrow>
        \<lparr> pid = newId i,
          name = (case resolved_name row of None \<Rightarrow> [] | Some v \<Rightarrow> trim v),
          birthDate = (case rawBirth_of row of
                         None \<Rightarrow> None
                       | Some rawBirth \<Rightarrow> if truthy rawBirth then Some (trim rawBirth) else None),
          pnotes = None \<rparr>)"

section \<open>User actions in sequence\<close>

text \<open>
  The actions of a user that change the ledger or the empty spaces: a plain click on
  a seat, the end of a drag, the removal of a person from the panel, and the
  auto-assign button (with the date reading of the runtime as parameter).
\<close>

datatype ui_action =
    ClickSeat seat_id
  | Drop DragEndEvent
  | RemovePerson person_id
  | AutoAssign

fun ui_step :: "(string \<Rightarrow> int option) \<Rightarrow> ui_action \<Rightarrow> BusConfig \<Rightarrow> BusConfig" where
  "ui_step getTime (ClickSeat seatId) config = Seat_handleClick seatId config"
| "ui_step getTime (Drop event) config = handleDragEnd event config"
| "ui_step getTime (RemovePerson i) config = removePerson i config"
| "ui_step getTime AutoAssign config = autoAssignPeople getTime config"

definition run_ui :: "(string \<Rightarrow> int option) \<Rightarrow> ui_action list \<Rightarrow> BusConfig \<Rightarrow> BusConfig" where
  "run_ui getTime actions config = fold (ui_step getTime) actions config"

text \<open>
  The data the two draggables register with the drag library: a \<open>Seat\<close> that shows a
  person (\<open>hasPerson\<close>) registers that person and its own seat id, a person of the
  panel (\<open>DraggablePerson\<close>) registers the person alone.
\<close>

definition Seat_drag_data :: "BusConfig \<Rightarrow> seat_id \<Rightarrow> DragData option" where
  "Seat_drag_data config seatId =
     (case assignedPerson config seatId of
        None \<Rightarrow> None
      | Some p \<Rightarrow> Some \<lparr>dtype = ''person'', personId = pid p, fromSeatId = Some seatId\<rparr>)"

definition Person_drag_data :: "Person \<Rightarrow> DragData option" where
  "Person_drag_data p = Some \<lparr>dtype = ''person'', personId = pid p, fromSeatId = None\<rparr>"

text \<open>
  A state without stale entries: the ids of the roster are non-empty, every ledger
  entry names a person of the roster, no empty space has a ledger entry, and the
  ledger is a \<open>Map\<close>. \<open>action_ok\<close> admits the actions a user can take in a state, but
  for the removal of a person who is on a seat.
\<close>

definition roster_ok :: "BusConfig \<Rightarrow> bool" where
  "roster_ok config =
     ((\<forall>p \<in> set (people config). truthy (pid p))
      \<and> (\<forall>s q. Map_get (seatAssignments config) s = Some q \<longrightarrow> q \<in> pid ` set (people config))
      \<and> (\<forall>s \<in> emptySpaces config. Map_get (seatAssignments config) s = None)
      \<and> keys_ok (seatAssignments config))"

fun action_ok :: "BusConfig \<Rightarrow> ui_action \<Rightarrow> bool" where
  "action_ok config (ClickSeat s) = True"
| "action_ok config (Drop event) =
     ((\<exists>s. active_data event = Seat_drag_data config s)
      \<or> (\<exists>p \<in> set (people config). active_data event = Person_drag_data p))"
| "action_ok config (RemovePerson i) = (i \<notin> set (Map_values (seatAssignments config)))"
| "action_ok config AutoAssign = True"

fun actions_ok :: "(string \<Rightarrow> int option) \<Rightarrow> BusConfig \<Rightarrow> ui_action list \<Rightarrow> bool" where
  "actions_ok getTime config [] = True"
| "actions_ok getTime config (a # as) =
     (action_ok config a \<and> actions_ok getTime (ui_step getTime a config) as)"

text \<open>The loop invariant of the numbering: no empty space has a number so far.\<close>

definition numbered_off_empty :: "BusConfig \<Rightarrow> numbering \<Rightarrow> bool" where
  "numbered_off_empty config st = (\<forall>k \<in> emptySpaces config. Map_get (snd st) k = None)"

text \<open>
  The time of birth the comparator sees for a person, if any, and the sort key it
  amounts to when every person has one.
\<close>

definition birth_time :: "(string \<Rightarrow> int option) \<Rightarrow> Person \<Rightarrow> int option" where
  "birth_time getTime p =
     (case birthDate p of None \<Rightarrow> None | Some d \<Rightarrow> if truthy d then getTime d else None)"

definition birth_key :: "(string \<Rightarrow> int option) \<Rightarrow> Person \<Rightarrow> int" where
  "birth_key getTime p = (case birth_time getTime p of None \<Rightarrow> 0 | Some t \<Rightarrow> t)"

section \<open>Ledger operations the components issue\<close>

text \<open>
  The ways a component reaches the ledger. A person of the panel is dragged and
  released over a drop target: \<open>handleDragEnd\<close> gets the drag data of
  \<open>DraggablePerson\<close>. The occupant of a seat is dragged and released over a drop
  target: \<open>handleDragEnd\<close> gets the drag data that seat registers in the state it is
  dragged in (none when the seat shows no person). \<open>onSeatAssignment\<close> is called with
  a seat and a person id or \<open>null\<close>, and with no source seat. \<open>handleUnassignToPeople\<close>
  is called with a person id and a seat. The drop target \<open>over\<close> is any droppable or
  none.
\<close>

datatype ledger_op =
    DragPerson Person "string option"
  | DragSeat seat_id "string option"
  | AssignSeat seat_id "person_id option"
  | UnassignSeat person_id seat_id

fun issued_call :: "BusConfig \<Rightarrow> ledger_op \<Rightarrow> ledger_call" where
  "issued_call config (DragPerson p target) =
     DragEnd \<lparr>over = target, active_data = Person_drag_data p\<rparr>"
| "issued_call config (DragSeat seatId target) =
     DragEnd \<lparr>over = target, active_data = Seat_drag_data config seatId\<rparr>"
| "issued_call config (AssignSeat seatId pId) = SeatAssignment seatId pId None"
| "issued_call config (UnassignSeat p seatId) = UnassignToPeople p seatId"

fun run_ops :: "ledger_op list \<Rightarrow> BusConfig \<Rightarrow> BusConfig" where
  "run_ops [] config = config"
| "run_ops (operation # ops) config = run_ops ops (apply_call (issued_call config operation) config)"

section \<open>Every handler of the configurator\<close>

text \<open>
  The remaining handlers of BusConfigurator (src/unnamed/part_002), each as the state
  it gives to \<open>setConfig\<close>. The row counts are clamped:
  \<open>Math.max(1, Math.min(25, config.mainDeckRows + increment))\<close>, 15 for the upper deck.
  The number inputs read \<open>parseInt(e.target.value) || 1\<close>; \<open>parsed\<close> is the result of
  \<open>parseInt\<close>, \<open>None\<close> for \<open>NaN\<close>.
\<close>

definition updateMainDeckRows :: "int \<Rightarrow> BusConfig \<Rightarrow> BusConfig" where
  "updateMainDeckRows increment config =
     (let newRows = max 1 (min 25 (int (mainDeckRows config) + increment))
      in config\<lparr>mainDeckRows := nat newRows\<rparr>)"

definition updateUpperDeckRows :: "int \<Rightarrow> BusConfig \<Rightarrow> BusConfig" where
  "updateUpperDeckRows increment config =
     (let newRows = max 1 (min 15 (int (upperDeckRows config) + increment))
      in config\<lparr>upperDeckRows := nat newRows\<rparr>)"

definition parsed_or_1 :: "int option \<Rightarrow> int" where
  "parsed_or_1 parsed = (case parsed of None \<Rightarrow> 1 | Some v \<Rightarrow> if v = 0 then 1 else v)"

definition mainDeckRows_onChange :: "int option \<Rightarrow> BusConfig \<Rightarrow> BusConfig" where
  "mainDeckRows_onChange parsed config =
     (let value = parsed_or_1 parsed
      in config\<lparr>mainDeckRows := nat (max 1 (min 25 value))\<rparr>)"

definition upperDeckRows_onChange :: "int option \<Rightarrow> BusConfig \<Rightarrow> BusConfig" where
  "upperDeckRows_onChange parsed config =
     (let value = parsed_or_1 parsed
      in config\<lparr>upperDeckRows := nat (max 1 (min 15 value))\<rparr>)"

definition toggleUpperDeck :: "BusConfig \<Rightarrow> BusConfig" where
  "toggleUpperDeck config = config\<lparr>hasUpperDeck := \<not> hasUpperDeck config\<rparr>"

definition toggleLastRowSeats :: "BusConfig \<Rightarrow> BusConfig" where
  "toggleLastRowSeats config =
     (let newSeats = (if lastRowSeats config = 4 then 5 else 4)
      in config\<lparr>lastRowSeats := newSeats\<rparr>)"

definition updateSeatNumber :: "seat_id \<Rightarrow> string \<Rightarrow> BusConfig \<Rightarrow> BusConfig" where
  "updateSeatNumber seatId number config =
     config\<lparr>seatNumbers :=
       (if truthy (trim number) then Map_set seatId (trim number) (seatNumbers config)
        else Map_delete seatId (seatNumbers config))\<rparr>"

definition onToggleTourGuideSeat :: "seat_id \<Rightarrow> BusConfig \<Rightarrow> BusConfig" where
  "onToggleTourGuideSeat seatId config =
     (let newTourGuideSeats =
            (if seatId \<in> set (tourGuideSeats config)
             then filter (\<lambda>seat. seat \<noteq> seatId) (tourGuideSeats config)
             else tourGuideSeats config @ [seatId])
      in config\<lparr>tourGuideSeats := newTourGuideSeats\<rparr>)"

text \<open>
  One constructor for every call of \<open>setConfig\<close> in the component, with the arguments
  the handler receives; \<open>run_configurator\<close> is the state after a sequence of them from
  the initial state.
\<close>

datatype config_action =
    UpdateMainDeckRows int
  | MainDeckRowsInput "int option"
  | UpdateUpperDeckRows int
  | UpperDeckRowsInput "int option"
  | ToggleUpperDeck
  | ToggleLastRowSeats
  | BusNameInput string
  | LicensePlatesInput string
  | ToggleEmptySpace seat_id
  | UpdateSeatNumber seat_id string
  | ToggleTourGuideSeat seat_id
  | TourGuideSeatsChange "seat_id list"
  | PeopleChange "Person list"
  | AutoAssignPeople
  | HandleUnassignToPeople person_id seat_id
  | HandleDragEnd DragEndEvent
  | OnSeatAssignment seat_id "person_id option" "seat_id option"

fun configurator_step :: "(string \<Rightarrow> int option) \<Rightarrow> config_action \<Rightarrow> BusConfig \<Rightarrow> BusConfig" where
  "configurator_step getTime (UpdateMainDeckRows increment) config = updateMainDeckRows increment config"
| "configurator_step getTime (MainDeckRowsInput parsed) config = mainDeckRows_onChange parsed config"
| "configurator_step getTime (UpdateUpperDeckRows increment) config = updateUpperDeckRows increment config"
| "configurator_step getTime (UpperDeckRowsInput parsed) config = upperDeckRows_onChange parsed config"
| "configurator_step getTime ToggleUpperDeck config = toggleUpperDeck config"
| "configurator_step getTime ToggleLastRowSeats config = toggleLastRowSeats config"
| "configurator_step getTime (BusNameInput v) config = config\<lparr>busName := v\<rparr>"
| "configurator_step getTime (LicensePlatesInput v) config = config\<lparr>licensePlates := v\<rparr>"
| "configurator_step getTime (ToggleEmptySpace seatId) config = toggleEmptySpace seatId config"
| "configurator_step getTime (UpdateSeatNumber seatId number) config = updateSeatNumber seatId number config"
| "configurator_step getTime (ToggleTourGuideSeat seatId) config = onToggleTourGuideSeat seatId config"
| "configurator_step getTime (TourGuideSeatsChange seats) config = config\<lparr>tourGuideSeats := seats\<rparr>"
| "configurator_step getTime (PeopleChange ps) config = config\<lparr>people := ps\<rparr>"
| "configurator_step getTime AutoAssignPeople config = autoAssignPeople getTime config"
| "configurator_step getTime (HandleUnassignToPeople p seatId) config = handleUnassignToPeople p seatId config"
| "configurator_step getTime (HandleDragEnd event) config = handleDragEnd event config"
| "configurator_step getTime (OnSeatAssignment seatId pId fromSeat) config = onSeatAssignment seatId pId fromSeat config"

definition run_configurator :: "(string \<Rightarrow> int option) \<Rightarrow> config_action list \<Rightarrow> BusConfig" where
  "run_configurator getTime actions = fold (configurator_step getTime) actions initialConfig"

section \<open>Example configurations\<close>

text \<open>
  Two occupied seats; the same ledger with a roster of three people, and a sequence of
  operations on it: a person from the panel to seat 2A, a swap of 1A and 1B, a move of
  2A to the free seat 3C, a seated person dragged from the panel to 4D, and two ways
  of unassigning.
\<close>

definition ledger_example :: BusConfig where
  "ledger_example = initialConfig\<lparr>seatAssignments := [(''1A'', ''p1''), (''1B'', ''p2'')]\<rparr>"

definition boarding_example :: BusConfig where
  "boarding_example =
     initialConfig\<lparr>people := [\<lparr>pid = ''p1'', name = ''Ana'', birthDate = None, pnotes = None\<rparr>,
                              \<lparr>pid = ''p2'', name = ''Boris'', birthDate = None, pnotes = None\<rparr>,
                              \<lparr>pid = ''p3'', name = ''Vera'', birthDate = None, pnotes = None\<rparr>],
                   seatAssignments := [(''1A'', ''p1''), (''1B'', ''p2'')]\<rparr>"

definition example_ops :: "ledger_op list" where
  "example_ops =
     [DragPerson \<lparr>pid = ''p3'', name = ''Vera'', birthDate = None, pnotes = None\<rparr> (Some ''2A''),
      DragSeat ''1A'' (Some ''1B''),
      DragSeat ''2A'' (Some ''3C''),
      DragPerson \<lparr>pid = ''p1'', name = ''Ana'', birthDate = None, pnotes = None\<rparr> (Some ''4D''),
      AssignSeat ''1A'' None,
      DragSeat ''4D'' (Some ''people-drop'')]"

text \<open>
  A session of the configurator: one person is added, seat 1C is marked as an empty
  space and seat 1B as a tour-guide seat, and the person is dropped on seat 1A.
\<close>

definition setup_actions :: "config_action list" where
  "setup_actions =
     [PeopleChange [\<lparr>pid = ''p1'', name = ''Ana'', birthDate = None, pnotes = None\<rparr>],
      ToggleEmptySpace ''1C'',
      ToggleTourGuideSeat ''1B'',
      HandleDragEnd (drag_from_list ''p1'' ''1A'')]"

text \<open>
  Two rows of four seats with two manual labels: free text on 1A, digits on 1B.
\<close>

definition override_example :: BusConfig where
  "override_example =
     initialConfig\<lparr>mainDeckRows := 2, lastRowSeats := 4,
                   seatNumbers := [(''1A'', ''VIP''), (''1B'', ''42'')]\<rparr>"

text \<open>
  Two rows of four seats with seat 1C marked as an empty space; and two rows of four
  seats with row 1 an entrance row.
\<close>

definition numbering_example :: BusConfig where
  "numbering_example =
     initialConfig\<lparr>mainDeckRows := 2, lastRowSeats := 4, emptySpaces := {''1C''}\<rparr>"

definition entrance_example :: BusConfig where
  "entrance_example =
     initialConfig\<lparr>mainDeckRows := 2, lastRowSeats := 4, entranceRows := Some [1]\<rparr>"

text \<open>
  Two rows, the last one five seats wide and an entrance row, and an upper deck of one
  row that is an entrance row.
\<close>

definition wide_entrance_example :: BusConfig where
  "wide_entrance_example =
     initialConfig\<lparr>mainDeckRows := 2, lastRowSeats := 5, entranceRows := Some [2],
                   hasUpperDeck := True, upperDeckRows := 1, upperDeckEntranceRows := Some [1]\<rparr>"

text \<open>
  The two dates of the roster examples as \<open>new Date(s).getTime()\<close> reads them
  (milliseconds since the epoch, UTC); every other string counts as an invalid date.
\<close>

definition known_dates :: "string \<Rightarrow> int option" where
  "known_dates s =
     map_of [(''1990-01-01'', 631152000000), (''2000-01-01'', 946684800000)] s"

definition born_2000 :: Person where
  "born_2000 = \<lparr>pid = ''p2000'', name = ''Ana'', birthDate = Some ''2000-01-01'', pnotes = None\<rparr>"

definition born_1990 :: Person where
  "born_1990 = \<lparr>pid = ''p1990'', name = ''Boris'', birthDate = Some ''1990-01-01'', pnotes = None\<rparr>"

definition no_birth :: Person where
  "no_birth = \<lparr>pid = ''pnone'', name = ''Vera'', birthDate = None, pnotes = None\<rparr>"

text \<open>
  One row of four seats. In the first roster example 1C and 1D are empty spaces, so
  the free seats are 1A and 1B; in the second only 1D is, and the person without a
  birth date stands between the other two.
\<close>

definition roster_example :: BusConfig where
  "roster_example =
     initialConfig\<lparr>mainDeckRows := 1, lastRowSeats := 4, emptySpaces := {''1C'', ''1D''},
                   people := [born_2000, born_1990, no_birth]\<rparr>"

definition mixed_roster_example :: BusConfig where
  "mixed_roster_example =
     initialConfig\<lparr>mainDeckRows := 1, lastRowSeats := 4, emptySpaces := {''1D''},
                   people := [born_2000, no_birth, born_1990]\<rparr>"

text \<open>
  A roster of one person, the ids drawn for imported rows, six records to import (the
  fifth has a name of a no-break space and a space, the sixth a name with a no-break
  space before and a tab after it), and a record with a blank cell under the first
  alias and a name under the second.
\<close>

definition one_person_example :: BusConfig where
  "one_person_example = initialConfig\<lparr>people := [born_1990]\<rparr>"

definition row_ids :: "nat \<Rightarrow> string" where
  "row_ids i = ''row'' @ String_num i"

definition import_example :: "csv_row list" where
  "import_example =
     [[(''Name'', ''  Ana  ''), (''DOB'', ''2000-01-01'')],
      [(''Name'', ''   ''), (''DOB'', ''1990-01-01'')],
      [(''Full Name'', ''Boris''), (''Date of Birth'', ''1990-01-01'')],
      [(''City'', ''Novi Sad'')],
      [(''name'', [CHR 0xA0, CHR '' '']), (''Name'', [])],
      [(''name'', []), (''Name and Lastname'', [CHR 0xA0, CHR ''Z'', CHR 0x09])]]"

definition blank_alias_example :: csv_row where
  "blank_alias_example = [(''name'', ''  ''), (''Name'', ''Bob'')]"

text \<open>
  Three actions on the roster of one person: the person is dropped on seat 1A, then
  removed from the panel, then seat 1A is clicked.
\<close>

definition dangling_actions :: "ui_action list" where
  "dangling_actions =
     [Drop (drag_from_list ''p1990'' ''1A''), RemovePerson ''p1990'', ClickSeat ''1A'']"

section \<open>Facts about the map model\<close>

lemma Map_get_set [simp]:
  "Map_get (Map_set k v m) k' = (if k' = k then Some v else Map_get m k')"
  by (simp add: Map_get_def Map_set_def update_conv')

lemma Map_get_delete [simp]:
  "Map_get (Map_delete k m) k' = (if k' = k then None else Map_get m k')"
  by (simp add: Map_get_def Map_delete_def delete_conv')

lemma keys_ok_set: "keys_ok m \<Longrightarrow> keys_ok (Map_set k v m)"
  by (simp add: keys_ok_def Map_set_def distinct_update)

lemma keys_ok_delete: "keys_ok m \<Longrightarrow> keys_ok (Map_delete k m)"
  by (simp add: keys_ok_def Map_delete_def distinct_delete)

lemma keys_ok_filter: "keys_ok m \<Longrightarrow> keys_ok (filter P m)"
  by (simp add: keys_ok_def distinct_map_filter)

text \<open>Removing the entries of one person, seen through \<open>get\<close>.\<close>

lemma Map_get_filter_value:
  "keys_ok m \<Longrightarrow>
   Map_get (filter (\<lambda>(s, q). q \<noteq> p) m) s = (if Map_get m s = Some p then None else Map_get m s)"
proof (induction m)
  case Nil
  then show ?case by (simp add: Map_get_def)
next
  case (Cons a m)
  obtain k v where a: "a = (k, v)" by (cases a)
  from Cons.prems have k: "k \<notin> fst ` set m" and d: "keys_ok m"
    by (auto simp: keys_ok_def a)
  have none: "map_of (filter (\<lambda>(s, q). q \<noteq> p) m) k = None"
    using k by (auto simp: map_of_eq_None_iff)
  show ?case
    using Cons.IH[OF d] none by (auto simp: a Map_get_def)
qed

text \<open>The executable form of the uniqueness invariant and its reading through \<open>get\<close>.\<close>

lemma unique_people_iff:
  assumes "keys_ok m"
  shows "unique_people m = one_seat_each m"
proof -
  have mem: "\<And>s p. (Map_get m s = Some p) = ((s, p) \<in> set m)"
    using assms by (simp add: Map_get_def keys_ok_def)
  have dm: "distinct m"
    using assms by (auto simp: keys_ok_def distinct_map)
  have "unique_people m = inj_on snd (set m)"
    using dm by (simp add: unique_people_def distinct_map)
  also have "\<dots> = (\<forall>s1 s2 p. (s1, p) \<in> set m \<and> (s2, p) \<in> set m \<longrightarrow> s1 = s2)"
    unfolding inj_on_def by (safe; fastforce)
  finally show ?thesis by (simp add: mem one_seat_each_def)
qed

section \<open>The two ledger branches\<close>

lemma seat_to_seat_get:
  "Map_get (seat_to_seat p f t m) s =
     (if s = f then (case Map_get m t of
                       Some q \<Rightarrow> if truthy q \<and> q \<noteq> p then Some q else None
                     | None \<Rightarrow> None)
      else if s = t then Some p
      else Map_get m s)"
  by (auto simp: seat_to_seat_def Let_def truthy_opt_def split: option.splits)

lemma from_people_list_get:
  "keys_ok m \<Longrightarrow>
   Map_get (from_people_list p t m) s =
     (if s = t then Some p else if Map_get m s = Some p then None else Map_get m s)"
  by (simp add: from_people_list_def Map_get_filter_value)

lemma keys_ok_seat_to_seat: "keys_ok m \<Longrightarrow> keys_ok (seat_to_seat p f t m)"
  by (auto simp: seat_to_seat_def Let_def keys_ok_set keys_ok_delete split: option.splits)

lemma keys_ok_from_people_list: "keys_ok m \<Longrightarrow> keys_ok (from_people_list p t m)"
  by (simp add: from_people_list_def keys_ok_set keys_ok_filter)

lemma one_seat_seat_to_seat:
  assumes "one_seat_each m" and "Map_get m f = Some p"
  shows "one_seat_each (seat_to_seat p f t m)"
  unfolding one_seat_each_def
proof (intro allI impI)
  fix s1 s2 r
  assume h: "Map_get (seat_to_seat p f t m) s1 = Some r
           \<and> Map_get (seat_to_seat p f t m) s2 = Some r"
  from assms(1) have u: "\<And>a b x. Map_get m a = Some x \<Longrightarrow> Map_get m b = Some x \<Longrightarrow> a = b"
    unfolding one_seat_each_def by blast
  from h show "s1 = s2"
    using u assms(2)
    by (auto simp: seat_to_seat_get split: if_splits option.splits)
qed

lemma one_seat_from_people_list:
  assumes "one_seat_each m" and "keys_ok m"
  shows "one_seat_each (from_people_list p t m)"
  using assms unfolding one_seat_each_def
  by (auto simp: from_people_list_get split: if_splits)

lemma one_seat_delete: "one_seat_each m \<Longrightarrow> one_seat_each (Map_delete s m)"
  unfolding one_seat_each_def by (auto split: if_splits)

lemma ledger_ok_handleDragEnd:
  assumes "ledger_ok config" and "call_ok config (DragEnd event)"
  shows "ledger_ok (handleDragEnd event config)"
  using assms
  by (auto simp: ledger_ok_def handleDragEnd_def handleUnassignToPeople_def source_holds_def
        keys_ok_delete keys_ok_seat_to_seat keys_ok_from_people_list
        one_seat_delete one_seat_seat_to_seat one_seat_from_people_list
      split: option.splits)

lemma ledger_ok_onSeatAssignment:
  assumes "ledger_ok config" and "call_ok config (SeatAssignment seatId pId fromSeat)"
  shows "ledger_ok (onSeatAssignment seatId pId fromSeat config)"
  using assms
  by (auto simp: ledger_ok_def onSeatAssignment_def source_holds_def
        keys_ok_delete keys_ok_seat_to_seat keys_ok_from_people_list
        one_seat_delete one_seat_seat_to_seat one_seat_from_people_list
      split: option.splits)

lemma ledger_ok_apply_call:
  assumes "ledger_ok config" and "call_ok config c"
  shows "ledger_ok (apply_call c config)"
proof (cases c)
  case (DragEnd ev)
  then show ?thesis using assms by (simp add: ledger_ok_handleDragEnd)
next
  case (SeatAssignment s p f)
  then show ?thesis using assms by (simp add: ledger_ok_onSeatAssignment)
next
  case (UnassignToPeople p s)
  then show ?thesis using assms
    by (simp add: ledger_ok_def handleUnassignToPeople_def keys_ok_delete one_seat_delete)
qed

lemma ledger_ok_run_calls:
  "ledger_ok config \<Longrightarrow> calls_ok config calls \<Longrightarrow> ledger_ok (run_calls calls config)"
proof (induction calls arbitrary: config)
  case Nil
  then show ?case by (simp add: run_calls_def)
next
  case (Cons c cs)
  from Cons.prems have "ledger_ok (apply_call c config)" and "calls_ok (apply_call c config) cs"
    by (simp_all add: ledger_ok_apply_call)
  then have "ledger_ok (run_calls cs (apply_call c config))"
    by (rule Cons.IH)
  then show ?case by (simp add: run_calls_def)
qed

lemma calls_ok_take: "calls_ok config calls \<Longrightarrow> calls_ok config (take n calls)"
proof (induction calls arbitrary: config n)
  case Nil
  then show ?case by simp
next
  case (Cons c cs)
  then show ?case by (cases n) simp_all
qed

section \<open>C1: the uniqueness invariant under sequences of ledger operations\<close>

text \<open>
  The handlers take the person of a seat-to-seat call from their arguments and never
  look at the source seat, so the invariant rests on what the callers pass. When
  every seat-to-seat call names the person the ledger records on its source seat
  (\<open>calls_ok\<close>), the invariant is kept by any sequence of calls.
\<close>

lemma uniqueness_when_sources_hold:
  assumes "keys_ok (seatAssignments config)"
      and "unique_people (seatAssignments config)"
      and "calls_ok config calls"
  shows "unique_people (seatAssignments (run_calls (take n calls) config))"
proof -
  have "ledger_ok config"
    using assms(1,2) by (simp add: ledger_ok_def unique_people_iff)
  then have ok: "ledger_ok (run_calls (take n calls) config)"
    using assms(3) by (simp add: ledger_ok_run_calls calls_ok_take)
  then have "keys_ok (seatAssignments (run_calls (take n calls) config))"
    by (simp add: ledger_ok_def)
  from unique_people_iff[OF this] ok show ?thesis
    by (simp add: ledger_ok_def)
qed

text \<open>
  The drag data of the components satisfy \<open>call_ok\<close> in every state: a seat registers
  the person its ledger entry resolves to, and a person of the panel names no source
  seat. So every operation the components issue is a call that satisfies it.
\<close>

lemma assignedPerson_Some:
  assumes "assignedPerson config s = Some p"
  shows "Map_get (seatAssignments config) s = Some (pid p) \<and> truthy (pid p) \<and> p \<in> set (people config)"
  using assms
  by (auto simp: assignedPerson_def find_Some_iff split: option.splits if_splits)

lemma assignedPerson_None:
  assumes "roster_ok config" and "assignedPerson config s = None"
  shows "Map_get (seatAssignments config) s = None"
proof (cases "Map_get (seatAssignments config) s")
  case None
  then show ?thesis .
next
  case (Some q)
  with assms(1) obtain p where p: "p \<in> set (people config)" "pid p = q"
    unfolding roster_ok_def by blast
  with assms(1) have "truthy q" unfolding roster_ok_def by blast
  with Some assms(2) have "find (\<lambda>p. pid p = q) (people config) = None"
    by (simp add: assignedPerson_def)
  with p show ?thesis by (auto simp: find_None_iff)
qed

lemma seat_drag_call_ok:
  "call_ok config (DragEnd \<lparr>over = t, active_data = Seat_drag_data config s\<rparr>)"
  by (auto simp: Seat_drag_data_def source_holds_def dest: assignedPerson_Some split: option.splits)

lemma person_drag_call_ok:
  "call_ok config (DragEnd \<lparr>over = t, active_data = Person_drag_data p\<rparr>)"
  by (simp add: Person_drag_data_def source_holds_def)

lemma issued_call_ok: "call_ok config (issued_call config operation)"
proof (cases operation)
  case (DragPerson p target)
  then show ?thesis using person_drag_call_ok[of config target p] by simp
next
  case (DragSeat seatId target)
  then show ?thesis using seat_drag_call_ok[of config target seatId] by simp
next
  case (AssignSeat seatId pId)
  then show ?thesis by (simp add: source_holds_def split: option.splits)
next
  case (UnassignSeat p seatId)
  then show ?thesis by simp
qed

lemma ledger_ok_run_ops: "ledger_ok config \<Longrightarrow> ledger_ok (run_ops ops config)"
proof (induction ops arbitrary: config)
  case Nil
  then show ?case by simp
next
  case (Cons operation ops)
  from Cons.prems have "ledger_ok (apply_call (issued_call config operation) config)"
    by (simp add: ledger_ok_apply_call issued_call_ok)
  then show ?case by (simp add: Cons.IH)
qed

text \<open>
  C1: from a ledger in which each person occupies at most one seat, after any sequence
  of ledger operations no two seats hold the same person. The operations are those
  the components issue (\<open>ledger_op\<close>): a person of the panel dragged to any drop
  target (assign from the people list), the occupant of a seat dragged to any drop
  target (move, swap, or unassign on the panel), \<open>onSeatAssignment\<close> with a seat and a
  person or \<open>null\<close>, and \<open>handleUnassignToPeople\<close>. After every prefix of the sequence,
  that is after each operation, no person id occurs twice among the values of the
  ledger, and no two distinct seats map to the same person id.
\<close>

theorem uniqueness_after_every_operation:
  assumes "keys_ok (seatAssignments config)"
      and "unique_people (seatAssignments config)"
  shows "unique_people (seatAssignments (run_ops (take n ops) config))
       \<and> (\<forall>s1 s2 p. Map_get (seatAssignments (run_ops (take n ops) config)) s1 = Some p
                  \<and> Map_get (seatAssignments (run_ops (take n ops) config)) s2 = Some p
             \<longrightarrow> s1 = s2)"
proof -
  have "ledger_ok config"
    using assms by (simp add: ledger_ok_def unique_people_iff)
  then have ok: "ledger_ok (run_ops (take n ops) config)"
    by (rule ledger_ok_run_ops)
  then have "keys_ok (seatAssignments (run_ops (take n ops) config))"
    by (simp add: ledger_ok_def)
  from unique_people_iff[OF this] ok show ?thesis
    by (simp add: ledger_ok_def one_seat_each_def)
qed

theorem uniqueness_after_every_operation_witness:
  "keys_ok (seatAssignments boarding_example)
   \<and> unique_people (seatAssignments boarding_example)
   \<and> seatAssignments (run_ops (take 4 example_ops) boarding_example)
       = [(''1A'', ''p2''), (''3C'', ''p3''), (''4D'', ''p1'')]
   \<and> unique_people (seatAssignments (run_ops (take 4 example_ops) boarding_example))
   \<and> seatAssignments (run_ops example_ops boarding_example) = [(''3C'', ''p3'')]"
proof -
  have h1: "keys_ok (seatAssignments boarding_example)" by code_simp
  have h2: "unique_people (seatAssignments boarding_example)" by code_simp
  have e1: "seatAssignments (run_ops (take 4 example_ops) boarding_example)
       = [(''1A'', ''p2''), (''3C'', ''p3''), (''4D'', ''p1'')]" by code_simp
  have e2: "seatAssignments (run_ops example_ops boarding_example) = [(''3C'', ''p3'')]" by code_simp
  from uniqueness_after_every_operation[OF h1 h2, of 4 example_ops] h1 h2 e1 e2
  show ?thesis by simp
qed

section \<open>C3: a drop on an occupied seat swaps the two occupants\<close>

text \<open>
  C3: when seat A holds person P, a distinct seat B holds a distinct person Q, and B
  is neither an empty space nor a tour-guide seat, the seat-to-seat drop of P from A
  onto B leaves A holding Q, B holding P, and every other seat as it was. This holds
  for \<open>handleDragEnd\<close> and for \<open>onSeatAssignment\<close>. Ids are the non-empty strings
  the application generates, and a seat id is not the id of the people panel.
\<close>

theorem swap_occupied_seats:
  assumes "Map_get (seatAssignments config) A = Some P"
      and "Map_get (seatAssignments config) B = Some Q"
      and "A \<noteq> B" and "P \<noteq> Q"
      and "B \<notin> emptySpaces config" and "B \<notin> set (tourGuideSeats config)"
      and "truthy A" and "truthy P" and "truthy Q" and "B \<noteq> ''people-drop''"
  shows "Map_get (seatAssignments (handleDragEnd (drag_from_seat P A B) config)) A = Some Q
       \<and> Map_get (seatAssignments (handleDragEnd (drag_from_seat P A B) config)) B = Some P
       \<and> (\<forall>s. s \<noteq> A \<and> s \<noteq> B \<longrightarrow>
              Map_get (seatAssignments (handleDragEnd (drag_from_seat P A B) config)) s
              = Map_get (seatAssignments config) s)
       \<and> Map_get (seatAssignments (onSeatAssignment B (Some P) (Some A) config)) A = Some Q
       \<and> Map_get (seatAssignments (onSeatAssignment B (Some P) (Some A) config)) B = Some P
       \<and> (\<forall>s. s \<noteq> A \<and> s \<noteq> B \<longrightarrow>
              Map_get (seatAssignments (onSeatAssignment B (Some P) (Some A) config)) s
              = Map_get (seatAssignments config) s)"
proof -
  have d: "seatAssignments (handleDragEnd (drag_from_seat P A B) config)
           = seat_to_seat P A B (seatAssignments config)"
    using assms by (simp add: handleDragEnd_def drag_from_seat_def)
  have s: "seatAssignments (onSeatAssignment B (Some P) (Some A) config)
           = seat_to_seat P A B (seatAssignments config)"
    using assms by (simp add: onSeatAssignment_def)
  show ?thesis
    unfolding d s using assms by (simp add: seat_to_seat_get)
qed

theorem swap_occupied_seats_witness:
  "Map_get (seatAssignments ledger_example) ''1A'' = Some ''p1''
   \<and> Map_get (seatAssignments ledger_example) ''1B'' = Some ''p2''
   \<and> ''1B'' \<notin> emptySpaces ledger_example \<and> ''1B'' \<notin> set (tourGuideSeats ledger_example)
   \<and> Map_get (seatAssignments (handleDragEnd (drag_from_seat ''p1'' ''1A'' ''1B'') ledger_example)) ''1A''
       = Some ''p2''
   \<and> Map_get (seatAssignments (handleDragEnd (drag_from_seat ''p1'' ''1A'' ''1B'') ledger_example)) ''1B''
       = Some ''p1''
   \<and> Map_get (seatAssignments (onSeatAssignment ''1B'' (Some ''p1'') (Some ''1A'') ledger_example)) ''1A''
       = Some ''p2''
   \<and> Map_get (seatAssignments (onSeatAssignment ''1B'' (Some ''p1'') (Some ''1A'') ledger_example)) ''1B''
       = Some ''p1''"
proof -
  have h1: "Map_get (seatAssignments ledger_example) ''1A'' = Some ''p1''" by code_simp
  have h2: "Map_get (seatAssignments ledger_example) ''1B'' = Some ''p2''" by code_simp
  have h3: "''1A'' \<noteq> ''1B''" and h4: "''p1'' \<noteq> ''p2''" by simp_all
  have h5: "''1B'' \<notin> emptySpaces ledger_example" by code_simp
  have h6: "''1B'' \<notin> set (tourGuideSeats ledger_example)" by code_simp
  have h7: "truthy ''1A''" and h8: "truthy ''p1''" and h9: "truthy ''p2''"
    by (simp_all add: truthy_def)
  have h10: "''1B'' \<noteq> ''people-drop''" by simp
  from swap_occupied_seats[OF h1 h2 h3 h4 h5 h6 h7 h8 h9 h10] h1 h2 h5 h6
  show ?thesis by simp
qed

section \<open>C10: a drop of a person on the seat they already hold\<close>

text \<open>
  C10: when seat S holds person P and S is neither an empty space nor a tour-guide
  seat, the seat-to-seat drop with source S and target S removes the entry of S and
  changes no other seat: the target is set to P, the source (the same seat) is deleted,
  and nothing is put back because the former occupant is P. If P held no other seat,
  P is then on no seat at all.
\<close>

theorem drop_on_own_seat_unassigns:
  assumes "Map_get (seatAssignments config) S = Some P"
      and "S \<notin> emptySpaces config" and "S \<notin> set (tourGuideSeats config)"
      and "truthy S" and "truthy P" and "S \<noteq> ''people-drop''"
  shows "Map_get (seatAssignments (handleDragEnd (drag_from_seat P S S) config)) S = None
       \<and> (\<forall>s. s \<noteq> S \<longrightarrow>
              Map_get (seatAssignments (handleDragEnd (drag_from_seat P S S) config)) s
              = Map_get (seatAssignments config) s)
       \<and> Map_get (seatAssignments (onSeatAssignment S (Some P) (Some S) config)) S = None
       \<and> (\<forall>s. s \<noteq> S \<longrightarrow>
              Map_get (seatAssignments (onSeatAssignment S (Some P) (Some S) config)) s
              = Map_get (seatAssignments config) s)
       \<and> (one_seat_each (seatAssignments config) \<longrightarrow>
            (\<forall>s. Map_get (seatAssignments (handleDragEnd (drag_from_seat P S S) config)) s \<noteq> Some P)
          \<and> (\<forall>s. Map_get (seatAssignments (onSeatAssignment S (Some P) (Some S) config)) s \<noteq> Some P))"
proof -
  have d: "seatAssignments (handleDragEnd (drag_from_seat P S S) config)
           = seat_to_seat P S S (seatAssignments config)"
    using assms by (simp add: handleDragEnd_def drag_from_seat_def)
  have s: "seatAssignments (onSeatAssignment S (Some P) (Some S) config)
           = seat_to_seat P S S (seatAssignments config)"
    using assms by (simp add: onSeatAssignment_def)
  have gone: "Map_get (seat_to_seat P S S (seatAssignments config)) S = None"
    using assms(1) by (simp add: seat_to_seat_get)
  have rest: "\<forall>x. x \<noteq> S \<longrightarrow>
                Map_get (seat_to_seat P S S (seatAssignments config)) x
                = Map_get (seatAssignments config) x"
    by (simp add: seat_to_seat_get)
  have free: "\<forall>x. Map_get (seat_to_seat P S S (seatAssignments config)) x \<noteq> Some P"
    if u: "one_seat_each (seatAssignments config)"
  proof
    fix x
    show "Map_get (seat_to_seat P S S (seatAssignments config)) x \<noteq> Some P"
    proof (cases "x = S")
      case True
      then show ?thesis using gone by simp
    next
      case False
      have "Map_get (seatAssignments config) x \<noteq> Some P"
      proof
        assume "Map_get (seatAssignments config) x = Some P"
        with u assms(1) have "x = S"
          unfolding one_seat_each_def by blast
        with False show False by simp
      qed
      with False rest show ?thesis by simp
    qed
  qed
  show ?thesis
    unfolding d s using gone rest free by blast
qed

theorem drop_on_own_seat_unassigns_witness:
  "Map_get (seatAssignments ledger_example) ''1A'' = Some ''p1''
   \<and> ''1A'' \<notin> emptySpaces ledger_example \<and> ''1A'' \<notin> set (tourGuideSeats ledger_example)
   \<and> Map_get (seatAssignments (handleDragEnd (drag_from_seat ''p1'' ''1A'' ''1A'') ledger_example)) ''1A''
       = None
   \<and> Map_get (seatAssignments (handleDragEnd (drag_from_seat ''p1'' ''1A'' ''1A'') ledger_example)) ''1B''
       = Some ''p2''
   \<and> seatAssignments (handleDragEnd (drag_from_seat ''p1'' ''1A'' ''1A'') ledger_example)
       = [(''1B'', ''p2'')]"
proof -
  have h1: "Map_get (seatAssignments ledger_example) ''1A'' = Some ''p1''" by code_simp
  have h2: "''1A'' \<notin> emptySpaces ledger_example" by code_simp
  have h3: "''1A'' \<notin> set (tourGuideSeats ledger_example)" by code_simp
  have h4: "truthy ''1A''" and h5: "truthy ''p1''" by (simp_all add: truthy_def)
  have h6: "''1A'' \<noteq> ''people-drop''" by simp
  have e1: "Map_get (seatAssignments ledger_example) ''1B'' = Some ''p2''" by code_simp
  have e2: "seatAssignments (handleDragEnd (drag_from_seat ''p1'' ''1A'' ''1A'') ledger_example)
       = [(''1B'', ''p2'')]" by code_simp
  from drop_on_own_seat_unassigns[OF h1 h2 h3 h4 h5 h6] h1 h2 h3 e1 e2
  show ?thesis by simp
qed

section \<open>C4: drops on invalid targets\<close>

text \<open>
  The validation of \<open>handleDragEnd\<close> tests \<open>emptySpaces\<close> and \<open>tourGuideSeats\<close>: a
  drop on such a seat returns the configuration as it is, in any state. The handler
  does not read \<open>driverSeats\<close>, and no handler of the configurator writes it: the
  layout would call \<open>onToggleDriverSeat\<close> on a click with control and shift, but the
  configurator passes no such callback.
\<close>

lemma invalid_target_no_op:
  assumes "over event = Some target"
      and "target \<in> emptySpaces config \<or> target \<in> set (tourGuideSeats config)"
      and "target \<noteq> ''people-drop''"
  shows "handleDragEnd event config = config"
  using assms by (auto simp: handleDragEnd_def split: option.splits)

lemma driverSeats_handleDragEnd: "driverSeats (handleDragEnd event config) = driverSeats config"
  by (simp add: handleDragEnd_def handleUnassignToPeople_def split: option.splits)

lemma driverSeats_configurator_step:
  "driverSeats (configurator_step getTime a config) = driverSeats config"
  by (cases a)
     (simp_all add: updateMainDeckRows_def updateUpperDeckRows_def mainDeckRows_onChange_def
        upperDeckRows_onChange_def toggleUpperDeck_def toggleLastRowSeats_def toggleEmptySpace_def
        updateSeatNumber_def onToggleTourGuideSeat_def autoAssignPeople_def
        handleUnassignToPeople_def driverSeats_handleDragEnd onSeatAssignment_def Let_def)

lemma driverSeats_fold:
  "driverSeats (fold (configurator_step getTime) actions config) = driverSeats config"
  by (induction actions arbitrary: config) (simp_all add: driverSeats_configurator_step)

lemma driverSeats_run_configurator: "driverSeats (run_configurator getTime actions) = []"
  by (simp add: run_configurator_def driverSeats_fold initialConfig_def)

text \<open>
  C4: in every state of the configurator, that is after any sequence of its handlers
  from the initial state, a drop whose target seat is an empty space or a reserved
  seat, tour-guide or driver, is a no-op of \<open>handleDragEnd\<close>: the whole configuration,
  and so the ledger, is returned unchanged, whatever is dragged and from wherever. The
  handler is a total function with no failing branch. The list of driver seats is
  empty in every such state. (The target is a seat, not the people panel.)
\<close>

theorem invalid_target_rejected:
  assumes "over event = Some target"
      and "target \<in> emptySpaces (run_configurator getTime actions)
           \<or> target \<in> set (tourGuideSeats (run_configurator getTime actions))
           \<or> target \<in> set (driverSeats (run_configurator getTime actions))"
      and "target \<noteq> ''people-drop''"
  shows "handleDragEnd event (run_configurator getTime actions) = run_configurator getTime actions
       \<and> seatAssignments (handleDragEnd event (run_configurator getTime actions))
           = seatAssignments (run_configurator getTime actions)
       \<and> driverSeats (run_configurator getTime actions) = []"
proof -
  have d: "driverSeats (run_configurator getTime actions) = []"
    by (rule driverSeats_run_configurator)
  with assms(2) have "target \<in> emptySpaces (run_configurator getTime actions)
           \<or> target \<in> set (tourGuideSeats (run_configurator getTime actions))"
    by simp
  from invalid_target_no_op[OF assms(1) this assms(3)] d show ?thesis by simp
qed

theorem invalid_target_rejected_witness:
  "over (drag_from_list ''p1'' ''1C'') = Some ''1C''
   \<and> ''1C'' \<in> emptySpaces (run_configurator known_dates setup_actions)
   \<and> over (drag_from_seat ''p1'' ''1A'' ''1B'') = Some ''1B''
   \<and> ''1B'' \<in> set (tourGuideSeats (run_configurator known_dates setup_actions))
   \<and> seatAssignments (run_configurator known_dates setup_actions) = [(''1A'', ''p1'')]
   \<and> handleDragEnd (drag_from_list ''p1'' ''1C'') (run_configurator known_dates setup_actions)
       = run_configurator known_dates setup_actions
   \<and> seatAssignments (handleDragEnd (drag_from_list ''p1'' ''1C'')
                          (run_configurator known_dates setup_actions))
       = [(''1A'', ''p1'')]
   \<and> seatAssignments (handleDragEnd (drag_from_seat ''p1'' ''1A'' ''1B'')
                          (run_configurator known_dates setup_actions))
       = [(''1A'', ''p1'')]"
proof -
  have h1: "over (drag_from_list ''p1'' ''1C'') = Some ''1C''" by code_simp
  have h2: "''1C'' \<in> emptySpaces (run_configurator known_dates setup_actions)" by code_simp
  have h3: "''1C'' \<noteq> ''people-drop''" by simp
  have g1: "over (drag_from_seat ''p1'' ''1A'' ''1B'') = Some ''1B''" by code_simp
  have g2: "''1B'' \<in> set (tourGuideSeats (run_configurator known_dates setup_actions))"
    by code_simp
  have g3: "''1B'' \<noteq> ''people-drop''" by simp
  have e: "seatAssignments (run_configurator known_dates setup_actions) = [(''1A'', ''p1'')]"
    by code_simp
  from invalid_target_rejected[OF h1 disjI1[OF h2] h3]
       invalid_target_rejected[OF g1 disjI2[OF disjI1[OF g2]] g3] h1 h2 g1 g2 e
  show ?thesis by simp
qed

section \<open>C7: the label a seat displays\<close>

lemma isDigit_iff: "isDigit c = (c \<in> set ''0123456789'')"
proof
  assume "isDigit c"
  then have "(of_char c :: nat) \<in> {48, 49, 50, 51, 52, 53, 54, 55, 56, 57}"
    unfolding isDigit_def by simp arith
  then have "char_of (of_char c :: nat) \<in> char_of ` {48 :: nat, 49, 50, 51, 52, 53, 54, 55, 56, 57}"
    by (rule imageI)
  then have "c \<in> char_of ` {48 :: nat, 49, 50, 51, 52, 53, 54, 55, 56, 57}"
    by simp
  also have "char_of ` {48 :: nat, 49, 50, 51, 52, 53, 54, 55, 56, 57} = set ''0123456789''"
    by code_simp
  finally show "c \<in> set ''0123456789''" .
next
  assume "c \<in> set ''0123456789''"
  then show "isDigit c"
    by (auto simp: isDigit_def)
qed

text \<open>
  C7 (as stated): a manual override, when present, is the displayed label, whether it
  is numeric or free text.

  \<open>displayResolved\<close> takes the override only when \<open>isNumeric\<close> accepts it. With the
  override \<open>VIP\<close> on seat 1A the label stays the computed number 1.
\<close>

theorem free_text_override_not_displayed:
  "Map_get (seatNumbers override_example) ''1A'' = Some ''VIP''
   \<and> seatNumber_of override_example ''1A'' = ''1''
   \<and> seat_label override_example ''1A'' = ''1''
   \<and> seat_label override_example ''1A'' \<noteq> ''VIP''"
  by code_simp

text \<open>
  C7 (amended): the displayed label of a seat is the override when an override is
  present and consists of decimal digits only (at least one); it is the computed
  sequential number (the empty string for a seat without one) when the override is
  present but not of that form, and when there is no override.
\<close>

theorem label_resolution:
  "(Map_get (seatNumbers config) seatId = Some v
      \<and> v \<noteq> [] \<and> (\<forall>c \<in> set v. c \<in> set ''0123456789'')
    \<longrightarrow> seat_label config seatId = v)
 \<and> (Map_get (seatNumbers config) seatId = Some v
      \<and> \<not> (v \<noteq> [] \<and> (\<forall>c \<in> set v. c \<in> set ''0123456789''))
    \<longrightarrow> seat_label config seatId = seatNumber_of config seatId)
 \<and> (Map_get (seatNumbers config) seatId = None
    \<longrightarrow> seat_label config seatId = seatNumber_of config seatId)"
  by (auto simp: seat_label_def displayResolved_def isNumeric_def truthy_def list_all_iff
        isDigit_iff Let_def)

theorem label_resolution_witness:
  "Map_get (seatNumbers override_example) ''1B'' = Some ''42''
   \<and> seat_label override_example ''1B'' = ''42''
   \<and> Map_get (seatNumbers override_example) ''2A'' = None
   \<and> seatNumber_of override_example ''2A'' = ''5''
   \<and> seat_label override_example ''2A'' = ''5''"
proof -
  have h1: "Map_get (seatNumbers override_example) ''1B'' = Some ''42''" by code_simp
  have h2: "''42'' \<noteq> [] \<and> (\<forall>c \<in> set ''42''. c \<in> set ''0123456789'')" by simp
  have h3: "Map_get (seatNumbers override_example) ''2A'' = None" by code_simp
  have h4: "seatNumber_of override_example ''2A'' = ''5''" by code_simp
  from label_resolution[of override_example "''1B''" "''42''"] h1 h2
  have a: "seat_label override_example ''1B'' = ''42''" by blast
  from label_resolution[of override_example "''2A''" "''42''"] h3
  have b: "seat_label override_example ''2A'' = seatNumber_of override_example ''2A''" by blast
  from a b h1 h3 h4 show ?thesis by simp
qed

section \<open>Decimal strings and seat ids\<close>

lemma String_num_nonempty: "String_num n \<noteq> []"
  by (subst String_num.simps) simp

lemma fromCharCode_inj: "m < 256 \<Longrightarrow> n < 256 \<Longrightarrow> fromCharCode m = fromCharCode n \<Longrightarrow> m = n"
  by (simp add: fromCharCode_def char_of_quasi_inj)

lemma String_num_inj: "String_num m = String_num n \<Longrightarrow> m = n"
proof (induction m arbitrary: n rule: String_num.induct)
  case (1 m)
  show ?case
  proof (cases "m < 10")
    case True
    note m = this
    show ?thesis
    proof (cases "n < 10")
      case True
      with m "1.prems" have "fromCharCode (48 + m) = fromCharCode (48 + n)"
        by (simp add: String_num.simps[of m] String_num.simps[of n])
      with m True show ?thesis
        by (auto dest!: fromCharCode_inj[rotated 2])
    next
      case False
      with m "1.prems" have "String_num (n div 10) = []"
        by (simp add: String_num.simps[of m] String_num.simps[of n])
      then show ?thesis by (simp add: String_num_nonempty)
    qed
  next
    case False
    note m = this
    show ?thesis
    proof (cases "n < 10")
      case True
      with m "1.prems" have "String_num (m div 10) = []"
        by (simp add: String_num.simps[of m] String_num.simps[of n])
      then show ?thesis by (simp add: String_num_nonempty)
    next
      case False
      with m "1.prems" have a: "String_num (m div 10) = String_num (n div 10)"
        and b: "fromCharCode (48 + m mod 10) = fromCharCode (48 + n mod 10)"
        by (simp_all add: String_num.simps[of m] String_num.simps[of n])
      from "1.IH"[OF m a] have d: "m div 10 = n div 10" .
      have "48 + m mod 10 < 256" and "48 + n mod 10 < 256" by simp_all
      from fromCharCode_inj[OF this b] have "m mod 10 = n mod 10" by simp
      with d show ?thesis
        by (metis div_mult_mod_eq)
    qed
  qed
qed

lemma String_num_digits: "c \<in> set (String_num n) \<Longrightarrow> isDigit c"
proof (induction n rule: String_num.induct)
  case (1 n)
  have dig: "isDigit (fromCharCode (48 + k))" if "k < 10" for k
    using that by (simp add: isDigit_def fromCharCode_def)
  show ?case
  proof (cases "n < 10")
    case True
    with "1.prems" show ?thesis
      by (simp add: String_num.simps[of n] dig)
  next
    case False
    with "1.prems" "1.IH" show ?thesis
      by (auto simp: String_num.simps[of n] dig)
  qed
qed

lemma String_num_no_U: "String_num n \<noteq> CHR ''U'' # xs"
proof
  assume "String_num n = CHR ''U'' # xs"
  then have "CHR ''U'' \<in> set (String_num n)" by simp
  then have "isDigit CHR ''U''" by (rule String_num_digits)
  then show False by (simp add: isDigit_def)
qed

lemma main_sid_inj:
  "i < 191 \<Longrightarrow> j < 191 \<Longrightarrow> main_sid r i = main_sid r' j \<Longrightarrow> r = r' \<and> i = j"
  by (auto simp: main_sid_def dest: String_num_inj fromCharCode_inj[rotated 2])

lemma upper_sid_inj:
  "i < 191 \<Longrightarrow> j < 191 \<Longrightarrow> upper_sid r i = upper_sid r' j \<Longrightarrow> r = r' \<and> i = j"
  by (auto simp: upper_sid_def dest: String_num_inj fromCharCode_inj[rotated 2])

lemma main_upper_sid_neq: "main_sid r i \<noteq> upper_sid r' j"
proof
  assume "main_sid r i = upper_sid r' j"
  then have "String_num r @ [fromCharCode (65 + i)]
             = (CHR ''U'' # String_num r') @ [fromCharCode (65 + j)]"
    by (simp add: main_sid_def upper_sid_def)
  then have "String_num r = CHR ''U'' # String_num r'"
    by (simp only: append1_eq_conv)
  then show False by (simp add: String_num_no_U)
qed

lemma letter_C: "i < 191 \<Longrightarrow> (fromCharCode (65 + i) = CHR ''C'') = (i = 2)"
proof -
  assume i: "i < 191"
  have c: "CHR ''C'' = fromCharCode 67" by code_simp
  show ?thesis
    using i fromCharCode_inj[of "65 + i" 67] by (auto simp: c)
qed

lemma letter_D: "i < 191 \<Longrightarrow> (fromCharCode (65 + i) = CHR ''D'') = (i = 3)"
proof -
  assume i: "i < 191"
  have c: "CHR ''D'' = fromCharCode 68" by code_simp
  show ?thesis
    using i fromCharCode_inj[of "65 + i" 68] by (auto simp: c)
qed

section \<open>One pass with one counter\<close>

lemma number_slots_append:
  "number_slots E (xs @ ys) st = number_slots E ys (number_slots E xs st)"
proof (induction xs arbitrary: st)
  case Nil
  then show ?case by simp
next
  case (Cons x xs)
  then show ?case by (cases st) simp
qed

lemma number_seat_slots: "number_seat config sid st = number_slots (emptySpaces config) [sid] st"
  by (cases st) (simp add: number_seat_def)

lemma fold_main_seat_step:
  assumes "\<forall>i \<in> set ixs. i < 191"
  shows "fold (main_seat_step config row) ixs st
         = number_slots (emptySpaces config)
             (map (main_sid row)
                (filter (\<lambda>i. \<not> (opt_includes (entranceRows config) row \<and> (i = 2 \<or> i = 3))) ixs))
             st"
  using assms
proof (induction ixs arbitrary: st)
  case Nil
  then show ?case by simp
next
  case (Cons i ixs)
  from Cons.prems have i: "i < 191" and rest: "\<forall>i \<in> set ixs. i < 191" by simp_all
  let ?P = "\<lambda>i. \<not> (opt_includes (entranceRows config) row \<and> (i = 2 \<or> i = 3))"
  have step: "main_seat_step config row i s
              = (if ?P i then number_slots (emptySpaces config) [main_sid row i] s else s)" for s
    using i by (auto simp: main_seat_step_def Let_def letter_C letter_D number_seat_slots main_sid_def)
  show ?case
  proof (cases "?P i")
    case True
    have "fold (main_seat_step config row) (i # ixs) st
          = number_slots (emptySpaces config) (map (main_sid row) (filter ?P ixs))
              (number_slots (emptySpaces config) [main_sid row i] st)"
      using True by (simp add: step Cons.IH[OF rest])
    also have "\<dots> = number_slots (emptySpaces config)
                         ([main_sid row i] @ map (main_sid row) (filter ?P ixs)) st"
      by (simp only: number_slots_append)
    finally show ?thesis using True by simp
  next
    case False
    then show ?thesis
      by (auto simp: step Cons.IH[OF rest])
  qed
qed

lemma fold_upper_seat_step:
  assumes "\<forall>i \<in> set ixs. i < 191"
  shows "fold (upper_seat_step config row) ixs st
         = number_slots (emptySpaces config)
             (map (upper_sid row)
                (filter (\<lambda>i. \<not> (opt_includes (upperDeckEntranceRows config) row \<and> (i = 2 \<or> i = 3))) ixs))
             st"
  using assms
proof (induction ixs arbitrary: st)
  case Nil
  then show ?case by simp
next
  case (Cons i ixs)
  from Cons.prems have i: "i < 191" and rest: "\<forall>i \<in> set ixs. i < 191" by simp_all
  let ?P = "\<lambda>i. \<not> (opt_includes (upperDeckEntranceRows config) row \<and> (i = 2 \<or> i = 3))"
  have step: "upper_seat_step config row i s
              = (if ?P i then number_slots (emptySpaces config) [upper_sid row i] s else s)" for s
    using i by (auto simp: upper_seat_step_def Let_def letter_C letter_D number_seat_slots upper_sid_def)
  show ?case
  proof (cases "?P i")
    case True
    have "fold (upper_seat_step config row) (i # ixs) st
          = number_slots (emptySpaces config) (map (upper_sid row) (filter ?P ixs))
              (number_slots (emptySpaces config) [upper_sid row i] st)"
      using True by (simp add: step Cons.IH[OF rest])
    also have "\<dots> = number_slots (emptySpaces config)
                         ([upper_sid row i] @ map (upper_sid row) (filter ?P ixs)) st"
      by (simp only: number_slots_append)
    finally show ?thesis using True by simp
  next
    case False
    then show ?thesis
      by (auto simp: step Cons.IH[OF rest])
  qed
qed

lemma seatsInRow_bound: "last_row_ok config \<Longrightarrow> seatsInRow config row \<le> 5"
  by (auto simp: last_row_ok_def seatsInRow_def)

lemma main_row_step_slots:
  assumes "last_row_ok config"
  shows "main_row_step config row st
         = number_slots (emptySpaces config) (main_row_seats config row) st"
proof -
  have "\<forall>i \<in> set [0..<seatsInRow config row]. i < 191"
    using seatsInRow_bound[OF assms, of row] by auto
  then show ?thesis
    by (simp add: main_row_step_def main_row_seats_def fold_main_seat_step)
qed

lemma upper_row_step_slots:
  "upper_row_step config row st
   = number_slots (emptySpaces config) (upper_row_seats config row) st"
proof -
  have "\<forall>i \<in> set [0..<4]. i < (191::nat)" by auto
  then show ?thesis
    by (simp only: upper_row_step_def upper_row_seats_def fold_upper_seat_step)
qed

lemma fold_main_row_step:
  assumes "last_row_ok config"
  shows "fold (main_row_step config) rows st
         = number_slots (emptySpaces config) (concat (map (main_row_seats config) rows)) st"
proof (induction rows arbitrary: st)
  case Nil
  then show ?case by simp
next
  case (Cons r rows)
  then show ?case
    by (simp add: main_row_step_slots[OF assms] number_slots_append)
qed

lemma fold_upper_row_step:
  "fold (upper_row_step config) rows st
   = number_slots (emptySpaces config) (concat (map (upper_row_seats config) rows)) st"
proof (induction rows arbitrary: st)
  case Nil
  then show ?case by simp
next
  case (Cons r rows)
  then show ?case
    by (simp add: upper_row_step_slots number_slots_append)
qed

lemma seatNumbering_slots:
  assumes "last_row_ok config"
  shows "seatNumbering config = number_slots (emptySpaces config) (seat_slots config) (0, [])"
  by (simp add: seatNumbering_def seat_slots_def Let_def fold_main_row_step[OF assms]
        fold_upper_row_step number_slots_append)

section \<open>What one pass computes\<close>

lemma number_slots_counter:
  "fst (number_slots E xs (c, m)) = c + length (filter (\<lambda>s. s \<notin> E) xs)"
  by (induction xs arbitrary: c m) simp_all

lemma number_slots_get:
  assumes "distinct xs"
  shows "Map_get (snd (number_slots E xs (c, m))) s =
           (if s \<in> set xs \<and> s \<notin> E
            then Some (String_num (c + 1 + length (filter (\<lambda>t. t \<notin> E) (takeWhile (\<lambda>t. t \<noteq> s) xs))))
            else Map_get m s)"
  using assms
proof (induction xs arbitrary: c m)
  case Nil
  then show ?case by simp
next
  case (Cons x xs)
  from Cons.prems have nx: "x \<notin> set xs" and d: "distinct xs" by simp_all
  show ?case
  proof (cases "x \<in> E")
    case True
    then show ?thesis
      using Cons.IH[OF d, of c m] by auto
  next
    case False
    then show ?thesis
      using Cons.IH[OF d, of "c + 1" "Map_set x (String_num (c + 1)) m"] nx
      by (auto simp: Map_get_set)
  qed
qed

lemma number_slots_keys:
  "fst ` set (snd (number_slots E xs (c, m))) = fst ` set m \<union> (set xs - E)"
proof (induction xs arbitrary: c m)
  case Nil
  then show ?case by simp
next
  case (Cons x xs)
  have upd: "fst ` set (Map_set x v m) = insert x (fst ` set m)" for v
    by (simp add: Map_set_def update_conv' flip: dom_map_of_conv_image_fst)
  show ?case
    by (auto simp: Cons.IH upd)
qed

section \<open>The slot sequence has no repetition\<close>

lemma distinct_concat_map:
  assumes "distinct rows"
      and "\<And>r. r \<in> set rows \<Longrightarrow> distinct (f r)"
      and "\<And>r r'. r \<in> set rows \<Longrightarrow> r' \<in> set rows \<Longrightarrow> r \<noteq> r' \<Longrightarrow> set (f r) \<inter> set (f r') = {}"
  shows "distinct (concat (map f rows))"
  using assms
proof (induction rows)
  case Nil
  then show ?case by simp
next
  case (Cons r rows)
  have "distinct (concat (map f rows))"
    using Cons.prems by (intro Cons.IH) auto
  moreover have "distinct (f r)"
    using Cons.prems(2) by simp
  moreover have "set (f r) \<inter> set (concat (map f rows)) = {}"
    using Cons.prems(1,3) by fastforce
  ultimately show ?case by simp
qed

lemma main_row_seats_mem:
  assumes "last_row_ok config" and "s \<in> set (main_row_seats config row)"
  shows "\<exists>i < 5. s = main_sid row i
           \<and> \<not> (opt_includes (entranceRows config) row \<and> (i = 2 \<or> i = 3))"
proof -
  from assms(2) obtain x where x: "s = main_sid row x" "x < seatsInRow config row"
      "\<not> (opt_includes (entranceRows config) row \<and> (x = 2 \<or> x = 3))"
    by (auto simp: main_row_seats_def split: if_splits)
  from x(2) seatsInRow_bound[OF assms(1), of row] have "x < 5" by simp
  with x show ?thesis by blast
qed

lemma upper_row_seats_mem:
  assumes "s \<in> set (upper_row_seats config row)"
  shows "\<exists>i < 5. s = upper_sid row i
           \<and> \<not> (opt_includes (upperDeckEntranceRows config) row \<and> (i = 2 \<or> i = 3))"
proof -
  from assms obtain x where x: "s = upper_sid row x" "x < 4"
      "\<not> (opt_includes (upperDeckEntranceRows config) row \<and> (x = 2 \<or> x = 3))"
    by (auto simp: upper_row_seats_def)
  from x(2) have "x < 5" by simp
  with x show ?thesis by blast
qed

lemma distinct_main_row_seats:
  assumes "last_row_ok config"
  shows "distinct (main_row_seats config row)"
proof -
  have "inj_on (main_sid row) {i. i < 191}"
    by (auto simp: inj_on_def dest: main_sid_inj)
  moreover have "set (filter (\<lambda>i. \<not> (opt_includes (entranceRows config) row \<and> (i = 2 \<or> i = 3)))
                    [0..<seatsInRow config row]) \<subseteq> {i. i < 191}"
    using seatsInRow_bound[OF assms, of row] by auto
  ultimately show ?thesis
    by (auto simp: main_row_seats_def distinct_map intro: inj_on_subset)
qed

lemma distinct_upper_row_seats: "distinct (upper_row_seats config row)"
proof -
  have "inj_on (upper_sid row) {i. i < 191}"
    by (auto simp: inj_on_def dest: upper_sid_inj)
  moreover have "set (filter (\<lambda>i. \<not> (opt_includes (upperDeckEntranceRows config) row \<and> (i = 2 \<or> i = 3)))
                    [0..<4]) \<subseteq> {i. i < 191}"
    by auto
  ultimately show ?thesis
    by (auto simp: upper_row_seats_def distinct_map intro: inj_on_subset)
qed

lemma main_rows_disjoint:
  assumes "last_row_ok config" and "r \<noteq> r'"
  shows "set (main_row_seats config r) \<inter> set (main_row_seats config r') = {}"
proof (rule ccontr)
  assume "set (main_row_seats config r) \<inter> set (main_row_seats config r') \<noteq> {}"
  then obtain s where a: "s \<in> set (main_row_seats config r)"
    and b: "s \<in> set (main_row_seats config r')" by auto
  from main_row_seats_mem[OF assms(1) a] obtain i where i: "i < 5" "s = main_sid r i" by auto
  from main_row_seats_mem[OF assms(1) b] obtain j where j: "j < 5" "s = main_sid r' j" by auto
  from i j have "main_sid r i = main_sid r' j" and "i < 191" and "j < 191" by simp_all
  then have "r = r'" using main_sid_inj by blast
  with assms(2) show False by simp
qed

lemma upper_rows_disjoint:
  assumes "r \<noteq> r'"
  shows "set (upper_row_seats config r) \<inter> set (upper_row_seats config r') = {}"
proof (rule ccontr)
  assume "set (upper_row_seats config r) \<inter> set (upper_row_seats config r') \<noteq> {}"
  then obtain s where a: "s \<in> set (upper_row_seats config r)"
    and b: "s \<in> set (upper_row_seats config r')" by auto
  from upper_row_seats_mem[OF a] obtain i where i: "i < 5" "s = upper_sid r i" by auto
  from upper_row_seats_mem[OF b] obtain j where j: "j < 5" "s = upper_sid r' j" by auto
  from i j have "upper_sid r i = upper_sid r' j" and "i < 191" and "j < 191" by simp_all
  then have "r = r'" using upper_sid_inj by blast
  with assms show False by simp
qed

lemma distinct_seat_slots:
  assumes "last_row_ok config"
  shows "distinct (seat_slots config)"
proof -
  let ?main = "concat (map (main_row_seats config) [1..<Suc (mainDeckRows config)])"
  let ?upper = "concat (map (upper_row_seats config) [1..<Suc (upperDeckRows config)])"
  have m: "distinct ?main"
    by (rule distinct_concat_map)
       (simp_all add: distinct_main_row_seats[OF assms] main_rows_disjoint[OF assms])
  have u: "distinct ?upper"
    by (rule distinct_concat_map)
       (simp_all add: distinct_upper_row_seats upper_rows_disjoint)
  have mu: "set ?main \<inter> set ?upper = {}"
  proof (rule ccontr)
    assume "set ?main \<inter> set ?upper \<noteq> {}"
    then obtain s r r' where "s \<in> set (main_row_seats config r)"
      and "s \<in> set (upper_row_seats config r')" by auto
    with main_row_seats_mem[OF assms] upper_row_seats_mem
    obtain i j where "s = main_sid r i" and "s = upper_sid r' j" by blast
    then show False using main_upper_sid_neq by metis
  qed
  show ?thesis
  proof (cases "hasUpperDeck config")
    case True
    then have "seat_slots config = ?main @ ?upper"
      by (simp only: seat_slots_def if_True)
    with m u mu show ?thesis
      by (simp only: distinct_append)
  next
    case False
    then have "seat_slots config = ?main"
      by (simp only: seat_slots_def if_False append_Nil2)
    with m show ?thesis by simp
  qed
qed

section \<open>Entrance seats are not slots\<close>

lemma entrance_main_not_slot:
  assumes "last_row_ok config" and "opt_includes (entranceRows config) row" and "i = 2 \<or> i = 3"
  shows "main_sid row i \<notin> set (seat_slots config)"
proof
  assume "main_sid row i \<in> set (seat_slots config)"
  then consider r where "main_sid row i \<in> set (main_row_seats config r)"
    | r where "main_sid row i \<in> set (upper_row_seats config r)"
    by (auto simp: seat_slots_def split: if_splits)
  then show False
  proof cases
    case 1
    from main_row_seats_mem[OF assms(1) 1] obtain j where j: "j < 5" "main_sid row i = main_sid r j"
      "\<not> (opt_includes (entranceRows config) r \<and> (j = 2 \<or> j = 3))" by auto
    from assms(3) j(1) have "i < 191" "j < 191" by auto
    from main_sid_inj[OF this j(2)] have "row = r" "i = j" by simp_all
    with j(3) assms(2,3) show False by simp
  next
    case 2
    from upper_row_seats_mem[OF 2] obtain j where "main_sid row i = upper_sid r j" by auto
    then show False using main_upper_sid_neq by metis
  qed
qed

lemma entrance_upper_not_slot:
  assumes "last_row_ok config" and "opt_includes (upperDeckEntranceRows config) row" and "i = 2 \<or> i = 3"
  shows "upper_sid row i \<notin> set (seat_slots config)"
proof
  assume "upper_sid row i \<in> set (seat_slots config)"
  then consider r where "upper_sid row i \<in> set (main_row_seats config r)"
    | r where "upper_sid row i \<in> set (upper_row_seats config r)"
    by (auto simp: seat_slots_def split: if_splits)
  then show False
  proof cases
    case 1
    from main_row_seats_mem[OF assms(1) 1] obtain j where "upper_sid row i = main_sid r j" by auto
    then show False using main_upper_sid_neq by metis
  next
    case 2
    from upper_row_seats_mem[OF 2] obtain j where j: "j < 5" "upper_sid row i = upper_sid r j"
      "\<not> (opt_includes (upperDeckEntranceRows config) r \<and> (j = 2 \<or> j = 3))" by auto
    from assms(3) j(1) have "i < 191" "j < 191" by auto
    from upper_sid_inj[OF this j(2)] have "row = r" "i = j" by simp_all
    with j(3) assms(2,3) show False by simp
  qed
qed

section \<open>Rendering follows the same slots\<close>

lemma cell_seats_render_main:
  "cell_seats (map (render_main_cell config row) ixs)
   = map (main_sid row)
       (filter (\<lambda>i. \<not> (opt_includes (entranceRows config) row \<and> (i = 2 \<or> i = 3))) ixs)"
  by (induction ixs) (auto simp: render_main_cell_def Let_def main_sid_def)

lemma cell_seats_render_upper:
  "cell_seats (map (render_upper_cell config row) ixs)
   = map (upper_sid row)
       (filter (\<lambda>i. \<not> (opt_includes (upperDeckEntranceRows config) row \<and> (i = 2 \<or> i = 3))) ixs)"
  by (induction ixs) (auto simp: render_upper_cell_def Let_def upper_sid_def)

lemma cell_seats_renderMainRow: "cell_seats (renderMainRow config row) = main_row_seats config row"
  by (simp add: renderMainRow_def main_row_seats_def cell_seats_render_main)

lemma cell_seats_renderUpperRow: "cell_seats (renderUpperRow config row) = upper_row_seats config row"
  by (simp only: renderUpperRow_def upper_row_seats_def cell_seats_render_upper)

lemma rendered_seats_slots: "rendered_seats config = seat_slots config"
  by (simp add: rendered_seats_def seat_slots_def renderMainDeck_def renderUpperDeck_def
        cell_seats_renderMainRow cell_seats_renderUpperRow comp_def)

lemma update_fresh: "k \<notin> fst ` set m \<Longrightarrow> AList.update k v m = m @ [(k, v)]"
  by (induction m) auto

lemma number_slots_order:
  assumes "distinct xs" and "set xs \<inter> fst ` set m = {}"
  shows "map fst (snd (number_slots E xs (c, m))) = map fst m @ filter (\<lambda>s. s \<notin> E) xs"
  using assms
proof (induction xs arbitrary: c m)
  case Nil
  then show ?case by simp
next
  case (Cons x xs)
  from Cons.prems have d: "distinct xs" and nx: "x \<notin> set xs" and fresh: "x \<notin> fst ` set m"
    and disj: "set xs \<inter> fst ` set m = {}" by auto
  show ?case
  proof (cases "x \<in> E")
    case True
    then show ?thesis using Cons.IH[OF d disj] by simp
  next
    case False
    have m': "Map_set x v m = m @ [(x, v)]" for v
      using fresh by (simp add: Map_set_def update_fresh)
    have "set xs \<inter> fst ` set (Map_set x (String_num (c + 1)) m) = {}"
      using disj nx unfolding m' by auto
    from Cons.IH[OF d this, of "c + 1"] False show ?thesis
      by (simp add: m')
  qed
qed

lemma upt_4: "[0..<4] = [0, 1, 2, 3 :: nat]"
  by code_simp

lemma upt_5: "[0..<5] = [0, 1, 2, 3, 4 :: nat]"
  by code_simp

lemma seatsInRow_cases: "last_row_ok config \<Longrightarrow> seatsInRow config row = 4 \<or> seatsInRow config row = 5"
  by (auto simp: last_row_ok_def seatsInRow_def)

lemma entrance_main_row_seats:
  assumes "last_row_ok config"
      and "opt_includes (entranceRows config) row" and "\<not> opt_includes (tableRows config) row"
  shows "main_row_seats config row = entrance_main_seats config row"
  using seatsInRow_cases[OF assms(1), of row] assms(2,3)
  by (auto simp: main_row_seats_def entrance_main_seats_def upt_4 upt_5)

lemma entrance_upper_row_seats:
  assumes "opt_includes (upperDeckEntranceRows config) row"
  shows "upper_row_seats config row = [upper_sid row 0, upper_sid row 1]"
  using assms by (simp add: upper_row_seats_def upt_4)

lemma renderMainRow_entrance:
  assumes "last_row_ok config"
      and "opt_includes (entranceRows config) row" and "\<not> opt_includes (tableRows config) row"
  shows "renderMainRow config row
         = [SeatCell (main_sid row 0) (seatNumber_of config (main_sid row 0)),
            SeatCell (main_sid row 1) (seatNumber_of config (main_sid row 1)),
            EntranceCell, NoCell]
           @ (if seatsInRow config row = 5
              then [SeatCell (main_sid row 4) (seatNumber_of config (main_sid row 4))]
              else [])"
  using seatsInRow_cases[OF assms(1), of row] assms(2,3)
  by (auto simp: renderMainRow_def render_main_cell_def Let_def main_sid_def upt_4 upt_5)

lemma renderUpperRow_entrance:
  assumes "opt_includes (upperDeckEntranceRows config) row"
  shows "renderUpperRow config row
         = [SeatCell (upper_sid row 0) (seatNumber_of config (upper_sid row 0)),
            SeatCell (upper_sid row 1) (seatNumber_of config (upper_sid row 1)),
            EntranceCell, NoCell]"
  using assms
  by (simp add: renderUpperRow_def render_upper_cell_def Let_def upper_sid_def upt_4)

section \<open>C2: sequential numbering with one counter\<close>

text \<open>
  C2: the numbering visits the seat slots of the main deck row by row in ascending
  order and then those of the upper deck when there is one (\<open>seat_slots\<close>), with one
  counter that starts at 0 (\<open>number_slots\<close>): a slot in \<open>emptySpaces\<close> is passed over
  without a change of the counter, every other slot increments the counter and gets
  that value. So the final counter is the number of slots outside \<open>emptySpaces\<close>, the
  map holds exactly those slots in their order, and each holds one more than the
  number of such slots before it. For two rows of four seats, no upper deck and
  \<open>emptySpaces = {1C}\<close> the map is 1A=1, 1B=2, 1D=3, 2A=4, 2B=5, 2C=6, 2D=7.
\<close>

theorem sequential_numbering:
  assumes "last_row_ok config"
  shows "seatNumbering config = number_slots (emptySpaces config) (seat_slots config) (0, [])
       \<and> fst (seatNumbering config)
           = length (filter (\<lambda>s. s \<notin> emptySpaces config) (seat_slots config))
       \<and> map fst (seatNumberMap config)
           = filter (\<lambda>s. s \<notin> emptySpaces config) (seat_slots config)
       \<and> (\<forall>s. Map_get (seatNumberMap config) s =
              (if s \<in> set (seat_slots config) \<and> s \<notin> emptySpaces config
               then Some (String_num (Suc (length (filter (\<lambda>t. t \<notin> emptySpaces config)
                                             (takeWhile (\<lambda>t. t \<noteq> s) (seat_slots config))))))
               else None))
       \<and> seatNumberMap numbering_example
           = [(''1A'', ''1''), (''1B'', ''2''), (''1D'', ''3''), (''2A'', ''4''),
              (''2B'', ''5''), (''2C'', ''6''), (''2D'', ''7'')]"
proof -
  note r = seatNumbering_slots[OF assms]
  note d = distinct_seat_slots[OF assms]
  have a: "fst (seatNumbering config)
           = length (filter (\<lambda>s. s \<notin> emptySpaces config) (seat_slots config))"
    by (simp add: r number_slots_counter)
  have b: "map fst (seatNumberMap config)
           = filter (\<lambda>s. s \<notin> emptySpaces config) (seat_slots config)"
    using number_slots_order[OF d, of "[]" "emptySpaces config" 0]
    by (simp add: seatNumberMap_def r)
  have c: "\<forall>s. Map_get (seatNumberMap config) s =
              (if s \<in> set (seat_slots config) \<and> s \<notin> emptySpaces config
               then Some (String_num (Suc (length (filter (\<lambda>t. t \<notin> emptySpaces config)
                                             (takeWhile (\<lambda>t. t \<noteq> s) (seat_slots config))))))
               else None)"
    using number_slots_get[OF d, of "emptySpaces config" 0 "[]"]
    by (simp add: seatNumberMap_def r Map_get_def)
  have e: "seatNumberMap numbering_example
           = [(''1A'', ''1''), (''1B'', ''2''), (''1D'', ''3''), (''2A'', ''4''),
              (''2B'', ''5''), (''2C'', ''6''), (''2D'', ''7'')]"
    by code_simp
  from r a b c e show ?thesis by blast
qed

theorem sequential_numbering_witness:
  "last_row_ok numbering_example
   \<and> seat_slots numbering_example
       = [''1A'', ''1B'', ''1C'', ''1D'', ''2A'', ''2B'', ''2C'', ''2D'']
   \<and> fst (seatNumbering numbering_example) = 7
   \<and> map fst (seatNumberMap numbering_example)
       = [''1A'', ''1B'', ''1D'', ''2A'', ''2B'', ''2C'', ''2D'']
   \<and> Map_get (seatNumberMap numbering_example) ''1D'' = Some ''3''
   \<and> Map_get (seatNumberMap numbering_example) ''1C'' = None"
proof -
  have h: "last_row_ok numbering_example" by code_simp
  have s: "seat_slots numbering_example
       = [''1A'', ''1B'', ''1C'', ''1D'', ''2A'', ''2B'', ''2C'', ''2D'']" by code_simp
  have e: "emptySpaces numbering_example = {''1C''}" by code_simp
  note t = sequential_numbering[OF h]
  from t have a: "fst (seatNumbering numbering_example)
           = length (filter (\<lambda>s. s \<notin> emptySpaces numbering_example) (seat_slots numbering_example))"
    by blast
  from t have b: "map fst (seatNumberMap numbering_example)
           = filter (\<lambda>s. s \<notin> emptySpaces numbering_example) (seat_slots numbering_example)"
    by blast
  from t have c: "Map_get (seatNumberMap numbering_example) s =
              (if s \<in> set (seat_slots numbering_example) \<and> s \<notin> emptySpaces numbering_example
               then Some (String_num (Suc (length (filter (\<lambda>t. t \<notin> emptySpaces numbering_example)
                                             (takeWhile (\<lambda>t. t \<noteq> s) (seat_slots numbering_example))))))
               else None)" for s
    by blast
  have n3: "String_num (Suc (Suc (Suc 0))) = ''3''" by code_simp
  have c1: "Map_get (seatNumberMap numbering_example) ''1D'' = Some ''3''"
    by (simp add: c[of "''1D''"] s e n3)
  have c2: "Map_get (seatNumberMap numbering_example) ''1C'' = None"
    by (simp add: c[of "''1C''"] s e)
  from h s a b c1 c2 show ?thesis
    by (simp add: s e)
qed

section \<open>C5: entrance rows\<close>

text \<open>
  C5: in an entrance row the columns C and D (seat indices 2 and 3) are replaced by the
  entrance gap: the row renders seat A, seat B, the entrance block and nothing, and
  seat E after them when the row is five seats wide; on the upper deck it renders seat
  A, seat B, the entrance block and nothing. The numbering passes C and D over
  without a change of the counter: on an entrance row it does what one pass over A
  and B (and E) does, so the counter grows by the number of those seats outside
  \<open>emptySpaces\<close> and by nothing else. Rendering and numbering apply the same rule: on
  every row of either deck the numbering is one pass over the seats the row renders,
  the whole numbering is one pass over the rendered seats, the numbered seats are the
  rendered seats outside \<open>emptySpaces\<close> in the same order, and each has one more than
  the number of such seats rendered before it, which is also the label the seat is
  rendered with; the seats C and D of an entrance row have no number. With row 1 an entrance row of width four, 1A and 1B get 1 and 2 and
  row 2 starts at 3. (A row is at most one of table row and entrance row; a row listed as
  both is rendered as a table and not numbered at all.)
\<close>

theorem entrance_rule:
  assumes "last_row_ok config"
  shows "(\<forall>row. opt_includes (entranceRows config) row \<and> \<not> opt_includes (tableRows config) row \<longrightarrow>
              renderMainRow config row
              = [SeatCell (main_sid row 0) (seatNumber_of config (main_sid row 0)),
                 SeatCell (main_sid row 1) (seatNumber_of config (main_sid row 1)),
                 EntranceCell, NoCell]
                @ (if seatsInRow config row = 5
                   then [SeatCell (main_sid row 4) (seatNumber_of config (main_sid row 4))]
                   else []))
       \<and> (\<forall>row. opt_includes (upperDeckEntranceRows config) row \<longrightarrow>
              renderUpperRow config row
              = [SeatCell (upper_sid row 0) (seatNumber_of config (upper_sid row 0)),
                 SeatCell (upper_sid row 1) (seatNumber_of config (upper_sid row 1)),
                 EntranceCell, NoCell])
       \<and> (\<forall>row st. opt_includes (entranceRows config) row \<and> \<not> opt_includes (tableRows config) row \<longrightarrow>
              main_row_step config row st
              = number_slots (emptySpaces config) (entrance_main_seats config row) st)
       \<and> (\<forall>row st. opt_includes (upperDeckEntranceRows config) row \<longrightarrow>
              upper_row_step config row st
              = number_slots (emptySpaces config) [upper_sid row 0, upper_sid row 1] st)
       \<and> (\<forall>row c m. opt_includes (entranceRows config) row \<and> \<not> opt_includes (tableRows config) row \<longrightarrow>
              fst (main_row_step config row (c, m))
              = c + length (filter (\<lambda>s. s \<notin> emptySpaces config) (entrance_main_seats config row)))
       \<and> (\<forall>row c m. opt_includes (upperDeckEntranceRows config) row \<longrightarrow>
              fst (upper_row_step config row (c, m))
              = c + length (filter (\<lambda>s. s \<notin> emptySpaces config) [upper_sid row 0, upper_sid row 1]))
       \<and> (\<forall>row st. main_row_step config row st
              = number_slots (emptySpaces config) (cell_seats (renderMainRow config row)) st)
       \<and> (\<forall>row st. upper_row_step config row st
              = number_slots (emptySpaces config) (cell_seats (renderUpperRow config row)) st)
       \<and> seatNumbering config
           = number_slots (emptySpaces config) (rendered_seats config) (0, [])
       \<and> map fst (seatNumberMap config)
           = filter (\<lambda>s. s \<notin> emptySpaces config) (rendered_seats config)
       \<and> (\<forall>s. Map_get (seatNumberMap config) s =
              (if s \<in> set (rendered_seats config) \<and> s \<notin> emptySpaces config
               then Some (String_num (Suc (length (filter (\<lambda>t. t \<notin> emptySpaces config)
                                             (takeWhile (\<lambda>t. t \<noteq> s) (rendered_seats config))))))
               else None))
       \<and> (\<forall>s. seatNumber_of config s =
              (if s \<in> set (rendered_seats config) \<and> s \<notin> emptySpaces config
               then String_num (Suc (length (filter (\<lambda>t. t \<notin> emptySpaces config)
                                       (takeWhile (\<lambda>t. t \<noteq> s) (rendered_seats config)))))
               else []))
       \<and> (\<forall>row. opt_includes (entranceRows config) row \<longrightarrow>
              Map_get (seatNumberMap config) (main_sid row 2) = None
            \<and> Map_get (seatNumberMap config) (main_sid row 3) = None)
       \<and> (\<forall>row. opt_includes (upperDeckEntranceRows config) row \<longrightarrow>
              Map_get (seatNumberMap config) (upper_sid row 2) = None
            \<and> Map_get (seatNumberMap config) (upper_sid row 3) = None)
       \<and> seatNumberMap entrance_example
           = [(''1A'', ''1''), (''1B'', ''2''), (''2A'', ''3''), (''2B'', ''4''),
              (''2C'', ''5''), (''2D'', ''6'')]"
proof -
  note r = seatNumbering_slots[OF assms]
  note d = distinct_seat_slots[OF assms]
  let ?E = "emptySpaces config"
  have get: "Map_get (seatNumberMap config) s = None" if "s \<notin> set (seat_slots config)" for s
    using number_slots_get[OF d, of "emptySpaces config" 0 "[]" s] that
    by (simp add: seatNumberMap_def r Map_get_def)
  have k: "\<forall>row. opt_includes (entranceRows config) row \<and> \<not> opt_includes (tableRows config) row \<longrightarrow>
              renderMainRow config row
              = [SeatCell (main_sid row 0) (seatNumber_of config (main_sid row 0)),
                 SeatCell (main_sid row 1) (seatNumber_of config (main_sid row 1)),
                 EntranceCell, NoCell]
                @ (if seatsInRow config row = 5
                   then [SeatCell (main_sid row 4) (seatNumber_of config (main_sid row 4))]
                   else [])"
    using renderMainRow_entrance[OF assms] by blast
  have l: "\<forall>row. opt_includes (upperDeckEntranceRows config) row \<longrightarrow>
              renderUpperRow config row
              = [SeatCell (upper_sid row 0) (seatNumber_of config (upper_sid row 0)),
                 SeatCell (upper_sid row 1) (seatNumber_of config (upper_sid row 1)),
                 EntranceCell, NoCell]"
    using renderUpperRow_entrance by blast
  have m: "\<forall>row st. opt_includes (entranceRows config) row \<and> \<not> opt_includes (tableRows config) row \<longrightarrow>
              main_row_step config row st
              = number_slots (emptySpaces config) (entrance_main_seats config row) st"
    by (simp add: main_row_step_slots[OF assms] entrance_main_row_seats[OF assms])
  have n: "\<forall>row st. opt_includes (upperDeckEntranceRows config) row \<longrightarrow>
              upper_row_step config row st
              = number_slots (emptySpaces config) [upper_sid row 0, upper_sid row 1] st"
    by (simp add: upper_row_step_slots entrance_upper_row_seats)
  have o1: "\<forall>row c m. opt_includes (entranceRows config) row \<and> \<not> opt_includes (tableRows config) row \<longrightarrow>
              fst (main_row_step config row (c, m))
              = c + length (filter (\<lambda>s. s \<notin> emptySpaces config) (entrance_main_seats config row))"
    using m by (simp add: number_slots_counter)
  have o2: "\<forall>row c m. opt_includes (upperDeckEntranceRows config) row \<longrightarrow>
              fst (upper_row_step config row (c, m))
              = c + length (filter (\<lambda>s. s \<notin> emptySpaces config) [upper_sid row 0, upper_sid row 1])"
  proof (intro allI impI)
    fix row c m
    assume "opt_includes (upperDeckEntranceRows config) row"
    with n have "upper_row_step config row (c, m)
                 = number_slots (emptySpaces config) [upper_sid row 0, upper_sid row 1] (c, m)"
      by blast
    then show "fst (upper_row_step config row (c, m))
              = c + length (filter (\<lambda>s. s \<notin> emptySpaces config) [upper_sid row 0, upper_sid row 1])"
      by (simp only: number_slots_counter)
  qed
  have g: "\<forall>row st. main_row_step config row st
              = number_slots (emptySpaces config) (cell_seats (renderMainRow config row)) st"
    by (simp add: main_row_step_slots[OF assms] cell_seats_renderMainRow)
  have h: "\<forall>row st. upper_row_step config row st
              = number_slots (emptySpaces config) (cell_seats (renderUpperRow config row)) st"
    by (simp add: upper_row_step_slots cell_seats_renderUpperRow)
  have i: "seatNumbering config
           = number_slots (emptySpaces config) (rendered_seats config) (0, [])"
    by (simp add: r rendered_seats_slots)
  have b: "map fst (seatNumberMap config)
           = filter (\<lambda>s. s \<notin> emptySpaces config) (rendered_seats config)"
    using number_slots_order[OF d, of "[]" "emptySpaces config" 0]
    by (simp add: seatNumberMap_def r rendered_seats_slots)
  have j: "\<forall>s. Map_get (seatNumberMap config) s =
              (if s \<in> set (rendered_seats config) \<and> s \<notin> emptySpaces config
               then Some (String_num (Suc (length (filter (\<lambda>t. t \<notin> emptySpaces config)
                                             (takeWhile (\<lambda>t. t \<noteq> s) (rendered_seats config))))))
               else None)"
    using number_slots_get[OF d, of "emptySpaces config" 0 "[]"]
    by (simp add: seatNumberMap_def r Map_get_def rendered_seats_slots)
  have j': "\<forall>s. seatNumber_of config s =
              (if s \<in> set (rendered_seats config) \<and> s \<notin> emptySpaces config
               then String_num (Suc (length (filter (\<lambda>t. t \<notin> emptySpaces config)
                                       (takeWhile (\<lambda>t. t \<noteq> s) (rendered_seats config)))))
               else [])"
    using j by (simp add: seatNumber_of_def)
  have c: "\<forall>row. opt_includes (entranceRows config) row \<longrightarrow>
              Map_get (seatNumberMap config) (main_sid row 2) = None
            \<and> Map_get (seatNumberMap config) (main_sid row 3) = None"
    by (simp add: get entrance_main_not_slot[OF assms])
  have u: "\<forall>row. opt_includes (upperDeckEntranceRows config) row \<longrightarrow>
              Map_get (seatNumberMap config) (upper_sid row 2) = None
            \<and> Map_get (seatNumberMap config) (upper_sid row 3) = None"
    by (simp add: get entrance_upper_not_slot[OF assms])
  have e: "seatNumberMap entrance_example
           = [(''1A'', ''1''), (''1B'', ''2''), (''2A'', ''3''), (''2B'', ''4''),
              (''2C'', ''5''), (''2D'', ''6'')]"
    by code_simp
  show ?thesis
    by (intro conjI) (fact k l m n o1 o2 g h i b j j' c u e)+
qed

theorem entrance_rule_witness:
  "last_row_ok wide_entrance_example
   \<and> opt_includes (entranceRows wide_entrance_example) 2
   \<and> opt_includes (upperDeckEntranceRows wide_entrance_example) 1
   \<and> renderMainRow wide_entrance_example 2
       = [SeatCell ''2A'' ''5'', SeatCell ''2B'' ''6'', EntranceCell, NoCell, SeatCell ''2E'' ''7'']
   \<and> renderUpperRow wide_entrance_example 1
       = [SeatCell ''U1A'' ''8'', SeatCell ''U1B'' ''9'', EntranceCell, NoCell]
   \<and> main_row_step wide_entrance_example 2 (4, [])
       = (7, [(''2A'', ''5''), (''2B'', ''6''), (''2E'', ''7'')])
   \<and> upper_row_step wide_entrance_example 1 (7, [])
       = (9, [(''U1A'', ''8''), (''U1B'', ''9'')])
   \<and> rendered_seats wide_entrance_example
       = [''1A'', ''1B'', ''1C'', ''1D'', ''2A'', ''2B'', ''2E'', ''U1A'', ''U1B'']
   \<and> map fst (seatNumberMap wide_entrance_example)
       = [''1A'', ''1B'', ''1C'', ''1D'', ''2A'', ''2B'', ''2E'', ''U1A'', ''U1B'']
   \<and> Map_get (seatNumberMap wide_entrance_example) ''2C'' = None
   \<and> Map_get (seatNumberMap wide_entrance_example) ''2D'' = None
   \<and> Map_get (seatNumberMap wide_entrance_example) ''U1C'' = None
   \<and> Map_get (seatNumberMap wide_entrance_example) ''U1D'' = None
   \<and> seatNumberMap wide_entrance_example
       = [(''1A'', ''1''), (''1B'', ''2''), (''1C'', ''3''), (''1D'', ''4''), (''2A'', ''5''),
          (''2B'', ''6''), (''2E'', ''7''), (''U1A'', ''8''), (''U1B'', ''9'')]
   \<and> last_row_ok entrance_example
   \<and> opt_includes (entranceRows entrance_example) 1
   \<and> renderMainRow entrance_example 1
       = [SeatCell ''1A'' ''1'', SeatCell ''1B'' ''2'', EntranceCell, NoCell]
   \<and> main_row_step entrance_example 1 (0, []) = (2, [(''1A'', ''1''), (''1B'', ''2'')])
   \<and> Map_get (seatNumberMap entrance_example) ''2A'' = Some ''3''"
proof -
  have h: "last_row_ok wide_entrance_example" by code_simp
  have i: "opt_includes (entranceRows wide_entrance_example) 2" by code_simp
  have t: "\<not> opt_includes (tableRows wide_entrance_example) 2" by code_simp
  have iu: "opt_includes (upperDeckEntranceRows wide_entrance_example) 1" by code_simp
  have e: "emptySpaces wide_entrance_example = {}" by code_simp
  have w: "seatsInRow wide_entrance_example 2 = 5" by code_simp
  have ids: "main_sid 2 0 = ''2A''" "main_sid 2 1 = ''2B''" "main_sid 2 2 = ''2C''"
    "main_sid 2 3 = ''2D''" "main_sid 2 4 = ''2E''"
    "upper_sid 1 0 = ''U1A''" "upper_sid 1 1 = ''U1B''" "upper_sid 1 2 = ''U1C''"
    "upper_sid 1 3 = ''U1D''"
    by code_simp+
  have nums: "seatNumber_of wide_entrance_example ''2A'' = ''5''"
    "seatNumber_of wide_entrance_example ''2B'' = ''6''"
    "seatNumber_of wide_entrance_example ''2E'' = ''7''"
    "seatNumber_of wide_entrance_example ''U1A'' = ''8''"
    "seatNumber_of wide_entrance_example ''U1B'' = ''9''"
    by code_simp+
  have sl: "number_slots {} [''2A'', ''2B'', ''2E''] (4, [])
            = (7, [(''2A'', ''5''), (''2B'', ''6''), (''2E'', ''7'')])"
    "number_slots {} [''U1A'', ''U1B''] (7, []) = (9, [(''U1A'', ''8''), (''U1B'', ''9'')])"
    by code_simp+
  have rs: "rendered_seats wide_entrance_example
       = [''1A'', ''1B'', ''1C'', ''1D'', ''2A'', ''2B'', ''2E'', ''U1A'', ''U1B'']"
    by code_simp
  have full: "seatNumberMap wide_entrance_example
       = [(''1A'', ''1''), (''1B'', ''2''), (''1C'', ''3''), (''1D'', ''4''), (''2A'', ''5''),
          (''2B'', ''6''), (''2E'', ''7''), (''U1A'', ''8''), (''U1B'', ''9'')]"
    by code_simp
  note th = entrance_rule[OF h]
  note k = th[THEN conjunct1]
  note th1 = th[THEN conjunct2]
  note l = th1[THEN conjunct1]
  note th2 = th1[THEN conjunct2]
  note m = th2[THEN conjunct1]
  note th3 = th2[THEN conjunct2]
  note n = th3[THEN conjunct1]
  note th9 = th3[THEN conjunct2, THEN conjunct2, THEN conjunct2, THEN conjunct2, THEN conjunct2,
                 THEN conjunct2]
  note b0 = th9[THEN conjunct1]
  note th12 = th9[THEN conjunct2, THEN conjunct2, THEN conjunct2]
  note c0 = th12[THEN conjunct1]
  note u0 = th12[THEN conjunct2, THEN conjunct1]
  have r1: "renderMainRow wide_entrance_example 2
       = [SeatCell ''2A'' ''5'', SeatCell ''2B'' ''6'', EntranceCell, NoCell, SeatCell ''2E'' ''7'']"
    using k[rule_format, of 2, OF conjI[OF i t]] unfolding w ids nums by simp
  have r2: "renderUpperRow wide_entrance_example 1
       = [SeatCell ''U1A'' ''8'', SeatCell ''U1B'' ''9'', EntranceCell, NoCell]"
    using l[rule_format, of 1, OF iu] unfolding ids nums by simp
  have s1: "main_row_step wide_entrance_example 2 (4, [])
       = (7, [(''2A'', ''5''), (''2B'', ''6''), (''2E'', ''7'')])"
    using m[rule_format, of 2 "(4, [])", OF conjI[OF i t]]
    unfolding entrance_main_seats_def w ids e by (simp only: sl if_True refl)
  have s2: "upper_row_step wide_entrance_example 1 (7, [])
       = (9, [(''U1A'', ''8''), (''U1B'', ''9'')])"
    using n[rule_format, of 1 "(7, [])", OF iu] unfolding ids e by (simp only: sl)
  have b: "map fst (seatNumberMap wide_entrance_example)
       = [''1A'', ''1B'', ''1C'', ''1D'', ''2A'', ''2B'', ''2E'', ''U1A'', ''U1B'']"
    using b0 unfolding rs e by simp
  have c: "Map_get (seatNumberMap wide_entrance_example) ''2C'' = None"
    "Map_get (seatNumberMap wide_entrance_example) ''2D'' = None"
    using c0[rule_format, of 2, OF i] unfolding ids by simp_all
  have u: "Map_get (seatNumberMap wide_entrance_example) ''U1C'' = None"
    "Map_get (seatNumberMap wide_entrance_example) ''U1D'' = None"
    using u0[rule_format, of 1, OF iu] unfolding ids by simp_all
  have x: "last_row_ok entrance_example" "opt_includes (entranceRows entrance_example) 1"
    "renderMainRow entrance_example 1
       = [SeatCell ''1A'' ''1'', SeatCell ''1B'' ''2'', EntranceCell, NoCell]"
    "main_row_step entrance_example 1 (0, []) = (2, [(''1A'', ''1''), (''1B'', ''2'')])"
    "Map_get (seatNumberMap entrance_example) ''2A'' = Some ''3''"
    by code_simp+
  show ?thesis
    by (intro conjI) (fact h i iu r1 r2 s1 s2 rs b c u full x)+
qed

text \<open>
  The other variant of the component (src/unnamed/part_001) follows another rule on
  the same configuration: the counter is advanced by two before the row and B and C
  are skipped, so 1A and 1D get 3 and 4 and row 2 starts at 5.
\<close>

lemma other_variant_entrance_numbering:
  "seatNumberMap_v1 entrance_example
   = [(''1A'', ''3''), (''1D'', ''4''), (''2A'', ''5''), (''2B'', ''6''),
      (''2C'', ''7''), (''2D'', ''8'')]"
  by code_simp

section \<open>C9: the import of tabular records\<close>

lemma rawName_resolved:
  "truthy_opt (rawName_of row) = (resolved_name row \<noteq> None)
   \<and> (\<forall>v. resolved_name row = Some v \<longrightarrow> rawName_of row = Some v)"
  by (auto simp: rawName_of_def resolved_name_def name_aliases_def js_or_def truthy_opt_def
        List.map_filter_simps
      split: option.splits)

lemma import_row_usable:
  "import_row newId (i, row) acc
   = (if usable_name row then acc @ [person_of newId (i, row)] else acc)"
proof (cases "resolved_name row")
  case None
  with rawName_resolved[of row] have "\<not> truthy_opt (rawName_of row)" by simp
  then show ?thesis
    using None by (auto simp: import_row_def usable_name_def truthy_opt_def split: option.splits)
next
  case (Some v)
  with rawName_resolved[of row] have r: "rawName_of row = Some v" and t: "truthy v"
    by (auto simp: truthy_opt_def)
  show ?thesis
    using Some t by (simp add: import_row_def r usable_name_def person_of_def truthy_def)
qed

lemma fold_import_row:
  "fold (import_row newId) irs acc
   = acc @ map (person_of newId) (filter (usable_name \<circ> snd) irs)"
proof (induction irs arbitrary: acc)
  case Nil
  then show ?case by simp
next
  case (Cons ir irs)
  obtain i row where ir: "ir = (i, row)" by (cases ir)
  show ?case
    by (simp add: ir import_row_usable Cons.IH)
qed

lemma import_rows_eq:
  "import_rows newId rows
   = map (person_of newId) (filter (usable_name \<circ> snd) (enumerate 0 rows))"
  by (simp add: import_rows_def fold_import_row)

lemma filter_snd_enumerate:
  "length (filter (P \<circ> snd) (enumerate n rows)) = length (filter P rows)"
proof -
  have "filter P rows = filter P (map snd (enumerate n rows))"
    by simp
  also have "\<dots> = map snd (filter (P \<circ> snd) (enumerate n rows))"
    by (simp only: filter_map)
  finally have "length (filter P rows) = length (map snd (filter (P \<circ> snd) (enumerate n rows)))"
    by (rule arg_cong)
  then show ?thesis by simp
qed

lemma mset_take_drop: "mset (take n xs) + mset (drop n xs) = mset xs"
  by (simp flip: mset_append)

lemma mset_binary_insert: "mset (binary_insert compare pivot xs) = add_mset pivot (mset xs)"
  by (simp add: binary_insert_def Let_def mset_take_drop)

lemma mset_fold_binary_insert:
  "mset (fold (binary_insert compare) xs acc) = mset xs + mset acc"
  by (induction xs arbitrary: acc) (simp_all add: mset_binary_insert)

lemma mset_run_then_insert:
  "mset (fold (binary_insert compare) (drop n xs) (if d then rev (take n xs) else take n xs))
   = mset xs"
  using mset_take_drop[of n xs] by (simp add: mset_fold_binary_insert add.commute)

lemma mset_Array_sort: "mset (Array_sort compare xs) = mset xs"
proof (cases xs)
  case Nil
  then show ?thesis by (simp add: Array_sort_def)
next
  case (Cons x ys)
  show ?thesis
  proof (cases ys)
    case Nil
    with \<open>xs = x # ys\<close> show ?thesis by (simp add: Array_sort_def)
  next
    case (Cons y rest)
    with \<open>xs = x # ys\<close> have xs: "xs = x # y # rest" by simp
    have "Array_sort compare xs
          = fold (binary_insert compare)
              (drop (2 + run_more compare (compare y x < 0) y rest) xs)
              (if compare y x < 0
               then rev (take (2 + run_more compare (compare y x < 0) y rest) xs)
               else take (2 + run_more compare (compare y x < 0) y rest) xs)"
      unfolding Array_sort_def xs by (simp only: list.case Let_def)
    then show ?thesis
      by (simp only: mset_run_then_insert)
  qed
qed

lemma length_Array_sort: "length (Array_sort compare xs) = length xs"
  using mset_Array_sort[of compare xs] by (metis size_mset)

lemma find_map_filter_Some:
  "(find P (List.map_filter f hs) = Some v)
   = (\<exists>i < length hs. f (hs ! i) = Some v \<and> P v
        \<and> (\<forall>j < i. f (hs ! j) = None \<or> (\<exists>w. f (hs ! j) = Some w \<and> \<not> P w)))"
proof (induction hs)
  case Nil
  then show ?case by (simp add: List.map_filter_simps)
next
  case (Cons h hs)
  show ?case
  proof (cases "f h")
    case None
    then show ?thesis
      by (simp add: List.map_filter_simps Cons.IH Ex_less_Suc2 All_less_Suc2)
  next
    case (Some w)
    show ?thesis
    proof (cases "P w")
      case True
      with Some show ?thesis
        by (auto simp: List.map_filter_simps Ex_less_Suc2 All_less_Suc2)
    next
      case False
      with Some show ?thesis
        by (auto simp: List.map_filter_simps Cons.IH Ex_less_Suc2 All_less_Suc2)
    qed
  qed
qed

lemma resolved_name_first_filled:
  "(resolved_name row = Some v)
   = (\<exists>i < length name_aliases. field row (name_aliases ! i) = Some v \<and> v \<noteq> []
        \<and> (\<forall>j < i. field row (name_aliases ! j) = None \<or> field row (name_aliases ! j) = Some []))"
  unfolding resolved_name_def find_map_filter_Some by (simp add: truthy_def)

lemma trim_nonempty: "trim v \<noteq> [] \<Longrightarrow> v \<noteq> []"
  by (auto simp: trim_def)

lemma usable_name_first_filled:
  "usable_name row
   = (\<exists>i < length name_aliases. \<exists>v. field row (name_aliases ! i) = Some v \<and> v \<noteq> [] \<and> trim v \<noteq> []
        \<and> (\<forall>j < i. field row (name_aliases ! j) = None \<or> field row (name_aliases ! j) = Some []))"
proof -
  have "usable_name row = (\<exists>v. resolved_name row = Some v \<and> trim v \<noteq> [])"
    by (auto simp: usable_name_def split: option.splits)
  then show ?thesis
    unfolding resolved_name_first_filled by blast
qed

lemma person_of_name:
  assumes "resolved_name row = Some v"
  shows "name (person_of newId (i, row)) = trim v \<and> pid (person_of newId (i, row)) = newId i"
  using assms by (simp add: person_of_def)

text \<open>
  C9 (as stated): the import yields one person for every record that resolves a name
  through one of the recognized header aliases to a string that is not empty after
  trimming, and drops every other record.

  As stated this fails: the aliases are tried in a fixed order and the first cell that
  is not empty is taken, also when it is blank. The record with two spaces under
  \<open>name\<close> and Bob under \<open>Name\<close> has the alias \<open>Name\<close> with a name that is not empty
  after trimming, and the import drops it.
\<close>

theorem later_alias_name_dropped:
  "''Name'' \<in> set name_aliases
   \<and> field blank_alias_example ''Name'' = Some ''Bob''
   \<and> trim ''Bob'' = ''Bob''
   \<and> handleFileUpload_complete known_dates row_ids [blank_alias_example] [] = []"
  by code_simp

text \<open>
  C9 (amended): a record is usable when the first cell that is present and not empty
  among its columns name, Name, Name and Lastname, Full Name, Full name, in this
  order, is not empty after trimming. The import gives \<open>onPeopleChange\<close> the existing
  people unchanged, followed by the people of the usable records in the order the
  birth-date sort gives them (a permutation of the people the usable records yield):
  exactly one person for every usable record, whose name is that cell trimmed, and none
  for any other record.
\<close>

theorem import_keeps_usable_rows:
  "take (length current) (handleFileUpload_complete getTime newId rows current) = current
   \<and> mset (drop (length current) (handleFileUpload_complete getTime newId rows current))
       = mset (map (person_of newId) (filter (usable_name \<circ> snd) (enumerate 0 rows)))
   \<and> length (handleFileUpload_complete getTime newId rows current)
       = length current + length (filter usable_name rows)
   \<and> (\<forall>row. usable_name row
          = (\<exists>i < length name_aliases. \<exists>v.
               field row (name_aliases ! i) = Some v \<and> v \<noteq> [] \<and> trim v \<noteq> []
               \<and> (\<forall>j < i. field row (name_aliases ! j) = None
                          \<or> field row (name_aliases ! j) = Some [])))
   \<and> (\<forall>row i k v. i < length name_aliases \<and> field row (name_aliases ! i) = Some v \<and> v \<noteq> []
                 \<and> (\<forall>j < i. field row (name_aliases ! j) = None
                            \<or> field row (name_aliases ! j) = Some [])
          \<longrightarrow> name (person_of newId (k, row)) = trim v \<and> pid (person_of newId (k, row)) = newId k)"
proof -
  have a: "take (length current) (handleFileUpload_complete getTime newId rows current) = current"
    by (simp add: handleFileUpload_complete_def)
  have b: "drop (length current) (handleFileUpload_complete getTime newId rows current)
       = Array_sort (birth_compare getTime)
           (map (person_of newId) (filter (usable_name \<circ> snd) (enumerate 0 rows)))"
    by (simp add: handleFileUpload_complete_def import_rows_eq)
  have c: "mset (drop (length current) (handleFileUpload_complete getTime newId rows current))
       = mset (map (person_of newId) (filter (usable_name \<circ> snd) (enumerate 0 rows)))"
    unfolding b by (rule mset_Array_sort)
  have d: "length (handleFileUpload_complete getTime newId rows current)
       = length current + length (filter usable_name rows)"
    by (simp add: handleFileUpload_complete_def length_Array_sort import_rows_eq
          filter_snd_enumerate)
  have e: "\<forall>row. usable_name row
          = (\<exists>i < length name_aliases. \<exists>v.
               field row (name_aliases ! i) = Some v \<and> v \<noteq> [] \<and> trim v \<noteq> []
               \<and> (\<forall>j < i. field row (name_aliases ! j) = None
                          \<or> field row (name_aliases ! j) = Some []))"
    using usable_name_first_filled by blast
  have f: "\<forall>row i k v. i < length name_aliases \<and> field row (name_aliases ! i) = Some v \<and> v \<noteq> []
                 \<and> (\<forall>j < i. field row (name_aliases ! j) = None
                            \<or> field row (name_aliases ! j) = Some [])
          \<longrightarrow> name (person_of newId (k, row)) = trim v \<and> pid (person_of newId (k, row)) = newId k"
  proof (intro allI impI)
    fix row i k v
    assume "i < length name_aliases \<and> field row (name_aliases ! i) = Some v \<and> v \<noteq> []
                 \<and> (\<forall>j < i. field row (name_aliases ! j) = None
                            \<or> field row (name_aliases ! j) = Some [])"
    then have "resolved_name row = Some v"
      unfolding resolved_name_first_filled by blast
    then show "name (person_of newId (k, row)) = trim v \<and> pid (person_of newId (k, row)) = newId k"
      by (rule person_of_name)
  qed
  show ?thesis
    by (intro conjI) (fact a c d e f)+
qed

theorem import_keeps_usable_rows_witness:
  "map usable_name import_example = [True, False, True, False, False, True]
   \<and> handleFileUpload_complete known_dates row_ids import_example [no_birth]
       = [no_birth,
          \<lparr>pid = ''row2'', name = ''Boris'', birthDate = Some ''1990-01-01'', pnotes = None\<rparr>,
          \<lparr>pid = ''row0'', name = ''Ana'', birthDate = Some ''2000-01-01'', pnotes = None\<rparr>,
          \<lparr>pid = ''row5'', name = ''Z'', birthDate = None, pnotes = None\<rparr>]
   \<and> length (handleFileUpload_complete known_dates row_ids import_example [no_birth]) = 4
   \<and> take 1 (handleFileUpload_complete known_dates row_ids import_example [no_birth]) = [no_birth]"
proof -
  have u: "map usable_name import_example = [True, False, True, False, False, True]"
    by code_simp
  have f: "length (filter usable_name import_example) = 3" by code_simp
  have e: "handleFileUpload_complete known_dates row_ids import_example [no_birth]
       = [no_birth,
          \<lparr>pid = ''row2'', name = ''Boris'', birthDate = Some ''1990-01-01'', pnotes = None\<rparr>,
          \<lparr>pid = ''row0'', name = ''Ana'', birthDate = Some ''2000-01-01'', pnotes = None\<rparr>,
          \<lparr>pid = ''row5'', name = ''Z'', birthDate = None, pnotes = None\<rparr>]"
    by code_simp
  note th = import_keeps_usable_rows[of "[no_birth]" known_dates row_ids import_example]
  from th[THEN conjunct1]
  have t: "take (length [no_birth])
             (handleFileUpload_complete known_dates row_ids import_example [no_birth])
           = [no_birth]" .
  from th[THEN conjunct2, THEN conjunct2, THEN conjunct1]
  have l: "length (handleFileUpload_complete known_dates row_ids import_example [no_birth])
           = length [no_birth] + length (filter usable_name import_example)" .
  from t l u f e show ?thesis by simp
qed

section \<open>C6: auto-assign by birth date\<close>

text \<open>
  C6: \<open>autoAssignPeople\<close> is to pair the unassigned people, oldest first, with the
  free seats. Its comparator returns 0 whenever one of the two people has no birth
  date, so such a person is never passed by anybody. With the roster born 2000, no
  birth date, born 1990 (in this order) and three free seats, the list stays as it
  is: the person born in 2000 gets seat 1A and the person born in 1990 gets seat 1C,
  which is not oldest first.
\<close>

theorem birthless_person_blocks_sorting:
  "people mixed_roster_example = [born_2000, no_birth, born_1990]
   \<and> seatAssignments mixed_roster_example = []
   \<and> getAvailableSeats mixed_roster_example = [''1A'', ''1B'', ''1C'']
   \<and> seatAssignments (autoAssignPeople known_dates mixed_roster_example)
       = [(''1A'', ''p2000''), (''1B'', ''pnone''), (''1C'', ''p1990'')]"
  by code_simp

text \<open>
  The example of the claim does come out oldest first: born 2000, born 1990, no birth
  date, with the two free seats 1A and 1B.
\<close>

lemma roster_example_oldest_first:
  "people roster_example = [born_2000, born_1990, no_birth]
   \<and> getAvailableSeats roster_example = [''1A'', ''1B'']
   \<and> seatAssignments (autoAssignPeople known_dates roster_example)
       = [(''1A'', ''p1990''), (''1B'', ''p2000'')]"
  by code_simp

text \<open>
  When every person of the list has a birth date that reads as a time, the comparator
  is a consistent ordering and the sort is the stable sort by time of birth, oldest
  first: the claim holds for such rosters.
\<close>

lemma bsearch_position:
  assumes "\<And>a. a \<in> set xs \<Longrightarrow> (compare pivot a < 0) = (key pivot < (key a :: int))"
      and "sorted (map key xs)"
      and "left \<le> right" and "right \<le> length xs"
      and "\<forall>i < left. key (xs ! i) \<le> key pivot"
      and "\<forall>i. right \<le> i \<and> i < length xs \<longrightarrow> key pivot < key (xs ! i)"
  shows "bsearch compare pivot xs left right \<le> length xs
       \<and> (\<forall>i < bsearch compare pivot xs left right. key (xs ! i) \<le> key pivot)
       \<and> (\<forall>i. bsearch compare pivot xs left right \<le> i \<and> i < length xs
              \<longrightarrow> key pivot < key (xs ! i))"
  using assms
proof (induction compare pivot xs left right rule: bsearch.induct)
  case (1 compare pivot xs left right)
  show ?case
  proof (cases "left < right")
    case False
    then have b: "bsearch compare pivot xs left right = left"
      by (simp add: bsearch.simps[of compare pivot xs left right])
    from False "1.prems"(3) have "left = right" by simp
    with "1.prems"(4,5,6) show ?thesis
      unfolding b by simp
  next
    case True
    let ?mid = "left + (right - left) div 2"
    have m: "left \<le> ?mid" "?mid < right" "?mid < length xs"
      using True "1.prems"(4) by auto
    then have memb: "xs ! ?mid \<in> set xs" by simp
    have srt: "key (xs ! i) \<le> key (xs ! j)" if "i \<le> j" "j < length xs" for i j
      using "1.prems"(2) that by (simp add: sorted_iff_nth_mono)
    show ?thesis
    proof (cases "compare pivot (xs ! ?mid) < 0")
      case c: True
      with "1.prems"(1)[OF memb] have k: "key pivot < key (xs ! ?mid)" by simp
      have upper: "\<forall>i. ?mid \<le> i \<and> i < length xs \<longrightarrow> key pivot < key (xs ! i)"
      proof (intro allI impI)
        fix i assume "?mid \<le> i \<and> i < length xs"
        with srt[of ?mid i] k show "key pivot < key (xs ! i)" by simp
      qed
      have "right \<le> length xs \<Longrightarrow> ?mid \<le> length xs" using m by simp
      from "1.IH"(1)[OF True refl c "1.prems"(1,2) m(1) this[OF "1.prems"(4)] "1.prems"(5) upper]
      show ?thesis
        using True c by (simp add: bsearch.simps[of compare pivot xs left right] Let_def)
    next
      case c: False
      with "1.prems"(1)[OF memb] have k: "key (xs ! ?mid) \<le> key pivot" by simp
      have lower: "\<forall>i < ?mid + 1. key (xs ! i) \<le> key pivot"
      proof (intro allI impI)
        fix i assume "i < ?mid + 1"
        then have "i \<le> ?mid" by simp
        with srt[of i ?mid] m(3) k show "key (xs ! i) \<le> key pivot" by simp
      qed
      have le: "?mid + 1 \<le> right" using m by simp
      from "1.IH"(2)[OF True refl c "1.prems"(1,2) le "1.prems"(4) lower "1.prems"(6)]
      show ?thesis
        using True c by (simp add: bsearch.simps[of compare pivot xs left right] Let_def)
    qed
  qed
qed

lemma binary_insert_sorted_stable:
  assumes "\<And>a. a \<in> set xs \<Longrightarrow> (compare pivot a < 0) = (key pivot < (key a :: int))"
      and "sorted (map key xs)"
  shows "sorted (map key (binary_insert compare pivot xs))
       \<and> (\<forall>k. filter (\<lambda>p. key p = k) (binary_insert compare pivot xs)
              = filter (\<lambda>p. key p = k) xs @ filter (\<lambda>p. key p = k) [pivot])"
proof -
  let ?p = "bsearch compare pivot xs 0 (length xs)"
  from bsearch_position[of xs compare pivot key 0 "length xs", OF assms]
  have p: "?p \<le> length xs"
    and lo: "\<forall>i < ?p. key (xs ! i) \<le> key pivot"
    and hi: "\<forall>i. ?p \<le> i \<and> i < length xs \<longrightarrow> key pivot < key (xs ! i)"
    by simp_all
  have lo': "key a \<le> key pivot" if "a \<in> set (take ?p xs)" for a
  proof -
    from that obtain i where "i < length (take ?p xs)" "take ?p xs ! i = a"
      by (auto simp: in_set_conv_nth)
    with lo show ?thesis by auto
  qed
  have hi': "key pivot < key b" if "b \<in> set (drop ?p xs)" for b
  proof -
    from that obtain i where i: "i < length (drop ?p xs)" "drop ?p xs ! i = b"
      by (auto simp: in_set_conv_nth)
    then have "?p + i < length xs" "xs ! (?p + i) = b" using p by auto
    with hi show ?thesis by (metis le_add1)
  qed
  have s: "sorted (map key (take ?p xs))" "sorted (map key (drop ?p xs))"
    using assms(2) by (simp_all add: sorted_wrt_take sorted_wrt_drop take_map[symmetric] drop_map[symmetric])
  have "sorted (map key (take ?p xs @ [pivot] @ drop ?p xs))"
    using s lo' hi' by (fastforce simp: sorted_append)
  moreover have "filter (\<lambda>p. key p = k) (take ?p xs @ [pivot] @ drop ?p xs)
              = filter (\<lambda>p. key p = k) xs @ filter (\<lambda>p. key p = k) [pivot]" for k
  proof (cases "key pivot = k")
    case True
    have "\<forall>b \<in> set (drop ?p xs). key b \<noteq> k"
      using hi' True by fastforce
    then have "filter (\<lambda>p. key p = k) (drop ?p xs) = []"
      by (simp add: filter_empty_conv)
    moreover have "filter (\<lambda>p. key p = k) xs
        = filter (\<lambda>p. key p = k) (take ?p xs) @ filter (\<lambda>p. key p = k) (drop ?p xs)"
      by (metis append_take_drop_id filter_append)
    ultimately show ?thesis by simp
  next
    case False
    have "filter (\<lambda>p. key p = k) xs
        = filter (\<lambda>p. key p = k) (take ?p xs) @ filter (\<lambda>p. key p = k) (drop ?p xs)"
      by (metis append_take_drop_id filter_append)
    with False show ?thesis by simp
  qed
  ultimately show ?thesis
    by (simp add: binary_insert_def Let_def)
qed

lemma fold_binary_insert_props:
  assumes "\<And>a b. a \<in> set xs \<union> set acc \<Longrightarrow> b \<in> set xs \<union> set acc \<Longrightarrow>
             (compare a b < 0) = (key a < (key b :: int))"
      and "sorted (map key acc)"
  shows "sorted (map key (fold (binary_insert compare) xs acc))
       \<and> (\<forall>k. filter (\<lambda>p. key p = k) (fold (binary_insert compare) xs acc)
              = filter (\<lambda>p. key p = k) acc @ filter (\<lambda>p. key p = k) xs)"
  using assms
proof (induction xs arbitrary: acc)
  case Nil
  then show ?case by simp
next
  case (Cons x xs)
  let ?acc = "binary_insert compare x acc"
  have link: "(compare x a < 0) = (key x < key a)" if "a \<in> set acc" for a
    using Cons.prems(1)[of x a] that by simp
  from binary_insert_sorted_stable[of acc compare x key, OF link Cons.prems(2)]
  have d: "sorted (map key ?acc)"
    and s: "\<And>k. filter (\<lambda>p. key p = k) ?acc
              = filter (\<lambda>p. key p = k) acc @ filter (\<lambda>p. key p = k) [x]"
    by simp_all
  have "set ?acc = insert x (set acc)"
    using mset_binary_insert[of compare x acc] by (metis set_mset_add_mset_insert set_mset_mset)
  then have "\<And>a b. a \<in> set xs \<union> set ?acc \<Longrightarrow> b \<in> set xs \<union> set ?acc \<Longrightarrow>
             (compare a b < 0) = (key a < key b)"
    using Cons.prems(1) by auto
  from Cons.IH[OF this d] show ?case
    by (simp add: s)
qed

lemma run_more_ascending:
  assumes "\<And>a b. a \<in> set (prev # rest) \<Longrightarrow> b \<in> set (prev # rest) \<Longrightarrow>
             (compare a b < 0) = (key a < (key b :: int))"
  shows "sorted (map key (prev # take (run_more compare False prev rest) rest))"
  using assms
proof (induction rest arbitrary: prev)
  case Nil
  then show ?case by simp
next
  case (Cons cur rest)
  show ?case
  proof (cases "compare cur prev < 0")
    case True
    then show ?thesis by simp
  next
    case False
    with Cons.prems[of cur prev] have k: "key prev \<le> key cur" by simp
    have "sorted (map key (cur # take (run_more compare False cur rest) rest))"
      using Cons.prems by (intro Cons.IH) auto
    with False k show ?thesis by auto
  qed
qed

lemma run_more_descending:
  assumes "\<And>a b. a \<in> set (prev # rest) \<Longrightarrow> b \<in> set (prev # rest) \<Longrightarrow>
             (compare a b < 0) = (key a < (key b :: int))"
  shows "sorted_wrt (\<lambda>a b. key b < key a) (prev # take (run_more compare True prev rest) rest)"
  using assms
proof (induction rest arbitrary: prev)
  case Nil
  then show ?case by simp
next
  case (Cons cur rest)
  show ?case
  proof (cases "compare cur prev \<ge> 0")
    case True
    then show ?thesis by simp
  next
    case False
    with Cons.prems[of cur prev] have k: "key cur < key prev" by simp
    have "sorted_wrt (\<lambda>a b. key b < key a) (cur # take (run_more compare True cur rest) rest)"
      using Cons.prems by (intro Cons.IH) auto
    with False k show ?thesis by auto
  qed
qed

lemma rev_strictly_descending:
  assumes "sorted_wrt (\<lambda>a b. key b < (key a :: int)) zs"
  shows "sorted (map key (rev zs))
       \<and> (\<forall>k. filter (\<lambda>p. key p = k) (rev zs) = filter (\<lambda>p. key p = k) zs)"
  using assms
proof (induction zs)
  case Nil
  then show ?case by simp
next
  case (Cons z zs)
  then have lt: "\<forall>a \<in> set zs. key a < key z" and IH: "sorted (map key (rev zs))"
    "\<And>k. filter (\<lambda>p. key p = k) (rev zs) = filter (\<lambda>p. key p = k) zs"
    by simp_all
  have "sorted (map key (rev zs) @ [key z])"
    using IH(1) lt by (fastforce simp: sorted_append)
  moreover have "filter (\<lambda>p. key p = k) (rev zs @ [z]) = filter (\<lambda>p. key p = k) (z # zs)" for k
  proof (cases "key z = k")
    case True
    with lt have "filter (\<lambda>p. key p = k) zs = []"
      by (auto simp: filter_empty_conv)
    with True IH(2)[of k] show ?thesis by simp
  next
    case False
    with IH(2)[of k] show ?thesis by simp
  qed
  ultimately show ?case by simp
qed

lemma Array_sort_consistent:
  assumes "\<And>a b. a \<in> set xs \<Longrightarrow> b \<in> set xs \<Longrightarrow> (compare a b < 0) = (key a < (key b :: int))"
  shows "Array_sort compare xs = sort_key key xs"
proof -
  have "sorted (map key (Array_sort compare xs))
      \<and> (\<forall>k. filter (\<lambda>p. key p = k) (Array_sort compare xs) = filter (\<lambda>p. key p = k) xs)"
  proof (cases xs)
    case Nil
    then show ?thesis by (simp add: Array_sort_def)
  next
    case (Cons x ys)
    show ?thesis
    proof (cases ys)
      case Nil
      with \<open>xs = x # ys\<close> show ?thesis by (simp add: Array_sort_def)
    next
      case (Cons y rest)
      with \<open>xs = x # ys\<close> have xs: "xs = x # y # rest" by simp
      let ?d = "compare y x < 0"
      let ?n = "2 + run_more compare ?d y rest"
      let ?run = "if ?d then rev (take ?n xs) else take ?n xs"
      have eq: "Array_sort compare xs = fold (binary_insert compare) (drop ?n xs) ?run"
        unfolding Array_sort_def xs by (simp only: list.case Let_def)
      have tk: "take ?n xs = x # y # take (run_more compare ?d y rest) rest"
        by (simp add: xs)
      have linky: "\<And>a b. a \<in> set (y # rest) \<Longrightarrow> b \<in> set (y # rest) \<Longrightarrow>
             (compare a b < 0) = (key a < key b)"
        using assms by (simp add: xs)
      have run: "sorted (map key ?run)
               \<and> (\<forall>k. filter (\<lambda>p. key p = k) ?run = filter (\<lambda>p. key p = k) (take ?n xs))"
      proof (cases ?d)
        case True
        with assms[of y x] have k: "key y < key x" by (simp add: xs)
        from run_more_descending[of y rest compare key, OF linky]
        have "sorted_wrt (\<lambda>a b. key b < key a) (y # take (run_more compare True y rest) rest)" .
        with k have "sorted_wrt (\<lambda>a b. key b < key a) (take ?n xs)"
          unfolding tk using True by auto
        from rev_strictly_descending[OF this] True show ?thesis by simp
      next
        case False
        with assms[of y x] have k: "key x \<le> key y" by (simp add: xs)
        from run_more_ascending[of y rest compare key, OF linky]
        have "sorted (map key (y # take (run_more compare False y rest) rest))" .
        with k have "sorted (map key (take ?n xs))"
          unfolding tk using False by auto
        with False show ?thesis by simp
      qed
      have sets: "set (drop ?n xs) \<union> set ?run \<subseteq> set xs"
        by (auto dest: in_set_dropD in_set_takeD)
      have "\<And>a b. a \<in> set (drop ?n xs) \<union> set ?run \<Longrightarrow> b \<in> set (drop ?n xs) \<union> set ?run \<Longrightarrow>
             (compare a b < 0) = (key a < key b)"
        using assms sets by blast
      from fold_binary_insert_props[of "drop ?n xs" ?run compare key, OF this] run
      have "sorted (map key (Array_sort compare xs))"
        and "\<And>k. filter (\<lambda>p. key p = k) (Array_sort compare xs)
              = filter (\<lambda>p. key p = k) (take ?n xs) @ filter (\<lambda>p. key p = k) (drop ?n xs)"
        unfolding eq by simp_all
      moreover have "filter (\<lambda>p. key p = k) (take ?n xs) @ filter (\<lambda>p. key p = k) (drop ?n xs)
                     = filter (\<lambda>p. key p = k) xs" for k
        by (metis append_take_drop_id filter_append)
      ultimately show ?thesis by simp
    qed
  qed
  then have "sorted (map key (Array_sort compare xs))"
    and st: "\<And>k. filter (\<lambda>p. key p = k) (Array_sort compare xs) = filter (\<lambda>p. key p = k) xs"
    by simp_all
  moreover have "filter (\<lambda>x. key k = key x) (Array_sort compare xs) = filter (\<lambda>x. key k = key x) xs" for k
    using st[of "key k"] by (simp add: eq_commute)
  ultimately have "sort_key key xs = Array_sort compare xs"
    by (intro properties_for_sort_key) (simp_all add: mset_Array_sort)
  then show ?thesis by simp
qed

lemma birth_compare_consistent:
  assumes "birth_time getTime a \<noteq> None" and "birth_time getTime b \<noteq> None"
  shows "(birth_compare getTime a b < 0) = (birth_key getTime a < birth_key getTime b)"
  using assms
  by (auto simp: birth_compare_def birth_time_def birth_key_def split: option.splits if_splits)

lemma sort_by_birth_when_all_dated:
  assumes "\<forall>p \<in> set xs. birth_time getTime p \<noteq> None"
  shows "Array_sort (birth_compare getTime) xs = sort_key (birth_key getTime) xs"
  using assms by (intro Array_sort_consistent birth_compare_consistent) auto

section \<open>C8: empty spaces and the ledger\<close>

text \<open>
  C8: a seat in \<open>emptySpaces\<close> is to have no number and no ledger entry in any state
  the user can reach. The click handler refuses to mark a seat empty only while the
  ledger entry of the seat resolves to a person of the roster. After a person is
  dropped on seat 1A and then removed from the panel, the entry of 1A remains, the
  seat shows as free, and a click marks it empty: 1A is then an empty space with a
  ledger entry. It has no number.
\<close>

theorem removed_person_leaves_entry_on_empty_space:
  "seatAssignments one_person_example = [] \<and> emptySpaces one_person_example = {}
   \<and> ''1A'' \<in> emptySpaces (run_ui known_dates dangling_actions one_person_example)
   \<and> Map_get (seatAssignments (run_ui known_dates dangling_actions one_person_example)) ''1A''
       = Some ''p1990''
   \<and> Map_get (seatNumberMap (run_ui known_dates dangling_actions one_person_example)) ''1A'' = None"
  by code_simp

text \<open>
  The half of C8 about numbers holds in every configuration: the numbering never
  gives a number to a seat in \<open>emptySpaces\<close>.
\<close>

lemma fold_invariant:
  assumes "\<And>x st. P st \<Longrightarrow> P (f x st)" and "P st"
  shows "P (fold f xs st)"
  using assms(2) by (induction xs arbitrary: st) (simp_all add: assms(1))

lemma off_empty_number_seat:
  "numbered_off_empty config st \<Longrightarrow> numbered_off_empty config (number_seat config sid st)"
  by (cases st) (auto simp: numbered_off_empty_def number_seat_def)

lemma off_empty_main_seat_step:
  "numbered_off_empty config st \<Longrightarrow> numbered_off_empty config (main_seat_step config row i st)"
  by (simp add: main_seat_step_def Let_def off_empty_number_seat)

lemma off_empty_upper_seat_step:
  "numbered_off_empty config st \<Longrightarrow> numbered_off_empty config (upper_seat_step config row i st)"
  by (simp add: upper_seat_step_def Let_def off_empty_number_seat)

lemma off_empty_main_row_step:
  assumes "numbered_off_empty config st"
  shows "numbered_off_empty config (main_row_step config row st)"
proof (cases "opt_includes (tableRows config) row")
  case True
  with assms show ?thesis by (simp add: main_row_step_def)
next
  case False
  have "numbered_off_empty config
          (fold (main_seat_step config row) [0..<seatsInRow config row] st)"
    using off_empty_main_seat_step assms
    by (rule fold_invariant[where P = "numbered_off_empty config"])
  with False show ?thesis by (simp add: main_row_step_def)
qed

lemma off_empty_upper_row_step:
  assumes "numbered_off_empty config st"
  shows "numbered_off_empty config (upper_row_step config row st)"
  unfolding upper_row_step_def
  using off_empty_upper_seat_step assms
  by (rule fold_invariant[where P = "numbered_off_empty config"])

lemma off_empty_seatNumbering: "numbered_off_empty config (seatNumbering config)"
proof -
  have 0: "numbered_off_empty config (0, [])"
    by (simp add: numbered_off_empty_def Map_get_def)
  have 1: "numbered_off_empty config
             (fold (main_row_step config) [1..<Suc (mainDeckRows config)] (0, []))"
    using off_empty_main_row_step 0
    by (rule fold_invariant[where P = "numbered_off_empty config"])
  have 2: "numbered_off_empty config
             (fold (upper_row_step config) [1..<Suc (upperDeckRows config)]
                (fold (main_row_step config) [1..<Suc (mainDeckRows config)] (0, [])))"
    using off_empty_upper_row_step 1
    by (rule fold_invariant[where P = "numbered_off_empty config"])
  show ?thesis
    unfolding seatNumbering_def Let_def using 1 2 by (simp only: if_split) simp
qed

lemma empty_space_has_no_number:
  assumes "s \<in> emptySpaces config"
  shows "Map_get (seatNumberMap config) s = None"
  using off_empty_seatNumbering[of config] assms
  by (simp add: numbered_off_empty_def seatNumberMap_def)

text \<open>
  The half about the ledger holds on every path that removes no seated person: a
  state without stale entries stays one under clicks, drops of the data the
  components register, removal of unseated people and auto-assign, and in such a
  state no empty space has a ledger entry.
\<close>

lemma roster_ok_click:
  assumes "roster_ok config"
  shows "roster_ok (Seat_handleClick seatId config)"
proof (cases "assignedPerson config seatId")
  case None
  from assignedPerson_None[OF assms None] assms show ?thesis
    by (auto simp: Seat_handleClick_def None toggleEmptySpace_def roster_ok_def)
next
  case (Some p)
  with assms show ?thesis by (simp add: Seat_handleClick_def)
qed

lemma roster_ok_ledger:
  assumes "roster_ok config"
      and "keys_ok m"
      and "\<And>s q. Map_get m s = Some q \<Longrightarrow>
             q \<in> pid ` set (people config) \<and> s \<notin> emptySpaces config"
  shows "roster_ok (config\<lparr>seatAssignments := m\<rparr>)"
  using assms unfolding roster_ok_def
  by (auto, metis not_Some_eq)

lemma roster_ok_entry:
  assumes "roster_ok config" and "Map_get (seatAssignments config) s = Some q"
  shows "q \<in> pid ` set (people config) \<and> s \<notin> emptySpaces config"
  using assms unfolding roster_ok_def by force

lemma roster_ok_from_people_list:
  assumes "roster_ok config" and "p \<in> pid ` set (people config)" and "t \<notin> emptySpaces config"
  shows "roster_ok (config\<lparr>seatAssignments := from_people_list p t (seatAssignments config)\<rparr>)"
proof (rule roster_ok_ledger[OF assms(1)])
  from assms(1) have k: "keys_ok (seatAssignments config)" by (simp add: roster_ok_def)
  then show "keys_ok (from_people_list p t (seatAssignments config))"
    by (rule keys_ok_from_people_list)
  fix s q
  assume "Map_get (from_people_list p t (seatAssignments config)) s = Some q"
  then show "q \<in> pid ` set (people config) \<and> s \<notin> emptySpaces config"
    using assms(2,3) roster_ok_entry[OF assms(1)]
    by (auto simp: from_people_list_get[OF k] split: if_splits)
qed

lemma roster_ok_seat_to_seat:
  assumes "roster_ok config" and "Map_get (seatAssignments config) f = Some p"
      and "t \<notin> emptySpaces config"
  shows "roster_ok (config\<lparr>seatAssignments := seat_to_seat p f t (seatAssignments config)\<rparr>)"
proof (rule roster_ok_ledger[OF assms(1)])
  from assms(1) have k: "keys_ok (seatAssignments config)" by (simp add: roster_ok_def)
  then show "keys_ok (seat_to_seat p f t (seatAssignments config))"
    by (rule keys_ok_seat_to_seat)
  fix s q
  assume "Map_get (seat_to_seat p f t (seatAssignments config)) s = Some q"
  then show "q \<in> pid ` set (people config) \<and> s \<notin> emptySpaces config"
    using assms(3) roster_ok_entry[OF assms(1)] roster_ok_entry[OF assms(1) assms(2)]
    by (auto simp: seat_to_seat_get split: if_splits option.splits)
qed

lemma roster_ok_delete:
  assumes "roster_ok config"
  shows "roster_ok (config\<lparr>seatAssignments := Map_delete s (seatAssignments config)\<rparr>)"
proof (rule roster_ok_ledger[OF assms])
  from assms show "keys_ok (Map_delete s (seatAssignments config))"
    by (simp add: roster_ok_def keys_ok_delete)
  fix s' q
  assume "Map_get (Map_delete s (seatAssignments config)) s' = Some q"
  then show "q \<in> pid ` set (people config) \<and> s' \<notin> emptySpaces config"
    using roster_ok_entry[OF assms] by (auto split: if_splits)
qed

lemma roster_ok_drop:
  assumes "roster_ok config" and "action_ok config (Drop event)"
  shows "roster_ok (handleDragEnd event config)"
proof -
  from assms(2) consider
      s where "active_data event = Seat_drag_data config s"
    | p where "p \<in> set (people config)" "active_data event = Person_drag_data p"
    by auto
  then show ?thesis
  proof cases
    case 1
    show ?thesis
    proof (cases "assignedPerson config s")
      case None
      with 1 have "active_data event = None" by (simp add: Seat_drag_data_def)
      then show ?thesis using assms(1)
        by (simp add: handleDragEnd_def split: option.splits)
    next
      case (Some p)
      from assignedPerson_Some[OF Some]
      have e: "Map_get (seatAssignments config) s = Some (pid p)" and m: "p \<in> set (people config)"
        by simp_all
      from 1 Some have d: "active_data event
          = Some \<lparr>dtype = ''person'', personId = pid p, fromSeatId = Some s\<rparr>"
        by (simp add: Seat_drag_data_def)
      show ?thesis
        using assms(1) e m
        by (auto simp: handleDragEnd_def d handleUnassignToPeople_def
              roster_ok_delete roster_ok_seat_to_seat roster_ok_from_people_list
            split: option.splits)
    qed
  next
    case 2
    then show ?thesis
      using assms(1)
      by (auto simp: handleDragEnd_def Person_drag_data_def roster_ok_from_people_list
          split: option.splits)
  qed
qed

lemma roster_ok_remove:
  assumes "roster_ok config" and "i \<notin> set (Map_values (seatAssignments config))"
  shows "roster_ok (removePerson i config)"
proof -
  have "q \<noteq> i" if "Map_get (seatAssignments config) s = Some q" for s q
  proof -
    from that have "(s, q) \<in> set (seatAssignments config)"
      by (simp add: Map_get_def map_of_SomeD)
    then have "q \<in> set (Map_values (seatAssignments config))"
      by (force simp: Map_values_def)
    with assms(2) show ?thesis by blast
  qed
  with assms(1) show ?thesis
    unfolding roster_ok_def removePerson_def by (auto, blast)
qed

lemma available_not_empty:
  "s \<in> set (getAvailableSeats config) \<Longrightarrow> s \<notin> emptySpaces config"
  by (auto simp: getAvailableSeats_def available_seat_def split: if_splits)

lemma fold_Map_set_get:
  assumes "Map_get (fold (\<lambda>i. Map_set (ks ! i) (vs ! i)) ixs m) s = Some q"
  shows "Map_get m s = Some q \<or> (\<exists>i \<in> set ixs. s = ks ! i \<and> q = vs ! i)"
  using assms
proof (induction ixs arbitrary: m)
  case Nil
  then show ?case by simp
next
  case (Cons i ixs)
  from Cons.IH[OF Cons.prems[simplified]] show ?case
    by (auto split: if_splits)
qed

lemma keys_ok_fold_Map_set:
  "keys_ok m \<Longrightarrow> keys_ok (fold (\<lambda>i. Map_set (ks i) (vs i)) ixs m)"
  by (induction ixs arbitrary: m) (simp_all add: keys_ok_set)

lemma roster_ok_autoAssign:
  assumes "roster_ok config"
  shows "roster_ok (autoAssignPeople getTime config)"
proof -
  let ?free = "filter (\<lambda>seat. \<not> Map_has (seatAssignments config) seat) (getAvailableSeats config)"
  let ?un = "filter (\<lambda>p. pid p \<notin> set (Map_values (seatAssignments config))) (people config)"
  let ?sorted = "Array_sort (birth_compare getTime) ?un"
  let ?n = "min (length ?sorted) (length ?free)"
  let ?m = "fold (\<lambda>i. Map_set (?free ! i) (map pid ?sorted ! i)) [0..<?n] (seatAssignments config)"
  have eq: "autoAssignPeople getTime config = config\<lparr>seatAssignments := ?m\<rparr>"
  proof -
    have "fold (\<lambda>i. Map_set (?free ! i) (pid (?sorted ! i))) [0..<?n] (seatAssignments config) = ?m"
      by (rule fold_cong) simp_all
    then show ?thesis
      by (simp add: autoAssignPeople_def Let_def)
  qed
  have "roster_ok (config\<lparr>seatAssignments := ?m\<rparr>)"
  proof (rule roster_ok_ledger[OF assms])
    from assms show "keys_ok ?m"
      by (simp add: roster_ok_def keys_ok_fold_Map_set)
    fix s q
    assume "Map_get ?m s = Some q"
    from fold_Map_set_get[OF this]
    consider "Map_get (seatAssignments config) s = Some q"
      | i where "i < ?n" "s = ?free ! i" "q = map pid ?sorted ! i"
      by auto
    then show "q \<in> pid ` set (people config) \<and> s \<notin> emptySpaces config"
    proof cases
      case 1
      then show ?thesis by (rule roster_ok_entry[OF assms])
    next
      case 2
      from 2(1) have "i < length ?free" by simp
      then have "?free ! i \<in> set ?free" by (rule nth_mem)
      with 2(2) have "s \<in> set ?free" by (simp only:)
      then have "s \<in> set (getAvailableSeats config)" by simp
      then have a: "s \<notin> emptySpaces config"
        by (rule available_not_empty)
      from 2(1,3) have "q = pid (?sorted ! i)" and "?sorted ! i \<in> set ?sorted" by simp_all
      moreover have "set ?sorted = set ?un"
        using mset_Array_sort[of "birth_compare getTime" ?un] by (metis set_mset_mset)
      ultimately have "q \<in> pid ` set (people config)" by auto
      with a show ?thesis by simp
    qed
  qed
  with eq show ?thesis by simp
qed

lemma roster_ok_ui_step:
  assumes "roster_ok config" and "action_ok config a"
  shows "roster_ok (ui_step getTime a config)"
proof (cases a)
  case (ClickSeat s)
  then show ?thesis using assms by (simp add: roster_ok_click)
next
  case (Drop ev)
  then show ?thesis using assms by (simp add: roster_ok_drop)
next
  case (RemovePerson i)
  then show ?thesis using assms by (simp add: roster_ok_remove)
next
  case AutoAssign
  then show ?thesis using assms by (simp add: roster_ok_autoAssign)
qed

lemma roster_ok_run_ui:
  "roster_ok config \<Longrightarrow> actions_ok getTime config actions \<Longrightarrow>
   roster_ok (run_ui getTime actions config)"
proof (induction actions arbitrary: config)
  case Nil
  then show ?case by (simp add: run_ui_def)
next
  case (Cons a as)
  from Cons.prems have "roster_ok (ui_step getTime a config)"
    and "actions_ok getTime (ui_step getTime a config) as"
    by (simp_all add: roster_ok_ui_step)
  then have "roster_ok (run_ui getTime as (ui_step getTime a config))"
    by (rule Cons.IH)
  then show ?case by (simp add: run_ui_def)
qed

lemma empty_spaces_unassigned_without_stale_entries:
  assumes "roster_ok config" and "actions_ok getTime config actions"
      and "s \<in> emptySpaces (run_ui getTime actions config)"
  shows "Map_get (seatAssignments (run_ui getTime actions config)) s = None
       \<and> Map_get (seatNumberMap (run_ui getTime actions config)) s = None"
  using roster_ok_run_ui[OF assms(1,2)] assms(3) empty_space_has_no_number
  unfolding roster_ok_def by blast

end
